theory Spec2Isabelle
  imports Complex_Main
begin

section \<open>Electric field of point charges: the evaluator and the grid sampler\<close>

text \<open>
  The repository holds two scripts. \<^verbatim>\<open>first try.py\<close> is the standalone plot and
  \<^verbatim>\<open>secondTry.py\<close> the interactive one. Both define \<^verbatim>\<open>get_electric_field\<close> and
  sample it on a square grid before plotting. They differ in the guard that skips a
  charge sitting on the query point: \<^verbatim>\<open>r_squared == 0\<close> in the first,
  \<^verbatim>\<open>r_squared < epsilon**2\<close> with \<^verbatim>\<open>epsilon = 1e-6\<close> in the second. The function
  of \<^verbatim>\<open>secondTry.py\<close> keeps its name here; the one of \<^verbatim>\<open>first try.py\<close> and its parts
  carry the suffix \<open>_first\<close>. The user interface of \<^verbatim>\<open>secondTry.py\<close> and the drawing
  calls are not modelled.

  The first model takes numbers as exact reals: Python ints, floats and numpy
  \<^verbatim>\<open>float64\<close> values are idealised, so rounding and overflow are outside it. What can go
  wrong in exact arithmetic is kept as an error value: a division by zero (Python raises
  \<^verbatim>\<open>ZeroDivisionError\<close> on its own scalars, numpy returns \<^verbatim>\<open>inf\<close> or \<^verbatim>\<open>nan\<close>), the
  square root of a negative number (numpy returns \<^verbatim>\<open>nan\<close>), a negative sample count
  given to \<^verbatim>\<open>np.linspace\<close>, and an index outside an array.

  A second model of the two evaluators keeps the range of IEEE doubles: results beyond
  the largest double become infinities, \<^verbatim>\<open>nan\<close> is a value, and \<^verbatim>\<open>**\<close> on Python floats
  raises \<^verbatim>\<open>OverflowError\<close>. It is the one that can say whether the evaluator raises or
  returns a non-finite value.
\<close>

subsection \<open>Data\<close>

text \<open>A charge is the triple \<^verbatim>\<open>(q, qx, qy)\<close>; a field vector the pair \<^verbatim>\<open>(Ex, Ey)\<close>,
  written \<open>(E_x, E_y)\<close> here since \<open>Ex\<close> is the existential quantifier of HOL.\<close>

type_synonym charge = "real \<times> real \<times> real"

type_synonym vec = "real \<times> real"

datatype error = DivisionByZero | InvalidSqrt | ValueError | IndexError | OverflowError

subsection \<open>Arithmetic that can fail\<close>

definition divide_py :: "real \<Rightarrow> real \<Rightarrow> error + real" where
  "divide_py a b = (if b = 0 then Inl DivisionByZero else Inr (a / b))"

definition np_sqrt :: "real \<Rightarrow> error + real" where
  "np_sqrt v = (if v < 0 then Inl InvalidSqrt else Inr (sqrt v))"

subsection \<open>The evaluator of \<^verbatim>\<open>secondTry.py\<close>\<close>

definition epsilon :: real where
  "epsilon = 1 / 10 ^ 6"

text \<open>One pass of the loop body for the charge \<^verbatim>\<open>(q, qx, qy)\<close>, from the accumulator
  \<^verbatim>\<open>(Ex, Ey)\<close> to the next one; \<^verbatim>\<open>continue\<close> returns the accumulator as it is.\<close>

fun field_body :: "charge \<Rightarrow> real \<Rightarrow> real \<Rightarrow> vec \<Rightarrow> error + vec" where
  "field_body (q, qx, qy) x y (E_x, E_y) =
     (let dx = x - qx;
          dy = y - qy;
          r_squared = dx ^ 2 + dy ^ 2
      in if r_squared < epsilon ^ 2 then Inr (E_x, E_y)
         else
           (case np_sqrt r_squared of
              Inl e \<Rightarrow> Inl e
            | Inr r \<Rightarrow>
               (case divide_py q r_squared of
                  Inl e \<Rightarrow> Inl e
                | Inr E \<Rightarrow>
                   (case divide_py dx r of
                      Inl e \<Rightarrow> Inl e
                    | Inr ux \<Rightarrow>
                       (case divide_py dy r of
                          Inl e \<Rightarrow> Inl e
                        | Inr uy \<Rightarrow> Inr (E_x + E * ux, E_y + E * uy))))))"

fun field_loop :: "charge list \<Rightarrow> real \<Rightarrow> real \<Rightarrow> vec \<Rightarrow> error + vec" where
  "field_loop [] x y acc = Inr acc"
| "field_loop (c # cs) x y acc =
     (case field_body c x y acc of
        Inl e \<Rightarrow> Inl e
      | Inr acc' \<Rightarrow> field_loop cs x y acc')"

definition get_electric_field :: "charge list \<Rightarrow> real \<Rightarrow> real \<Rightarrow> error + vec" where
  "get_electric_field charges x y = field_loop charges x y (0, 0)"

subsection \<open>The evaluator of \<^verbatim>\<open>first try.py\<close>\<close>

text \<open>The same loop with the guard \<^verbatim>\<open>r_squared == 0\<close>.\<close>

fun field_body_first :: "charge \<Rightarrow> real \<Rightarrow> real \<Rightarrow> vec \<Rightarrow> error + vec" where
  "field_body_first (q, qx, qy) x y (E_x, E_y) =
     (let dx = x - qx;
          dy = y - qy;
          r_squared = dx ^ 2 + dy ^ 2
      in if r_squared = 0 then Inr (E_x, E_y)
         else
           (case np_sqrt r_squared of
              Inl e \<Rightarrow> Inl e
            | Inr r \<Rightarrow>
               (case divide_py q r_squared of
                  Inl e \<Rightarrow> Inl e
                | Inr E \<Rightarrow>
                   (case divide_py dx r of
                      Inl e \<Rightarrow> Inl e
                    | Inr ux \<Rightarrow>
                       (case divide_py dy r of
                          Inl e \<Rightarrow> Inl e
                        | Inr uy \<Rightarrow> Inr (E_x + E * ux, E_y + E * uy))))))"

fun field_loop_first :: "charge list \<Rightarrow> real \<Rightarrow> real \<Rightarrow> vec \<Rightarrow> error + vec" where
  "field_loop_first [] x y acc = Inr acc"
| "field_loop_first (c # cs) x y acc =
     (case field_body_first c x y acc of
        Inl e \<Rightarrow> Inl e
      | Inr acc' \<Rightarrow> field_loop_first cs x y acc')"

definition get_electric_field_first :: "charge list \<Rightarrow> real \<Rightarrow> real \<Rightarrow> error + vec" where
  "get_electric_field_first charges x y = field_loop_first charges x y (0, 0)"

subsection \<open>The evaluators on doubles\<close>

text \<open>
  A double is a finite real, an infinity or \<^verbatim>\<open>nan\<close>. Of rounding only the range is
  kept: an exact result at or beyond \<open>2\<^sup>1\<^sup>0\<^sup>2\<^sup>4 - 2\<^sup>9\<^sup>7\<^sup>0\<close>, half a unit in the last place
  above the largest double, becomes an infinity, and one of magnitude at most
  \<open>2\<^sup>-\<^sup>1\<^sup>0\<^sup>7\<^sup>5\<close>, half the smallest subnormal, becomes zero. The 53-bit significand is
  idealised (a finite result in range is kept exact) and the sign of zero is not
  recorded. On operands and results that are powers of two the operations below are
  those of IEEE 754 exactly.
\<close>

datatype double = Finite real | PInf | NInf | NaN

definition overflow_threshold :: real where
  "overflow_threshold = 2 ^ 1024 - 2 ^ 970"

definition underflow_threshold :: real where
  "underflow_threshold = 1 / 2 ^ 1075"

definition to_double :: "real \<Rightarrow> double" where
  "to_double r =
     (if overflow_threshold \<le> r then PInf
      else if r \<le> - overflow_threshold then NInf
      else if \<bar>r\<bar> \<le> underflow_threshold then Finite 0
      else Finite r)"

text \<open>Negation, addition and subtraction; \<open>inf - inf\<close> is \<^verbatim>\<open>nan\<close>.\<close>

fun fneg :: "double \<Rightarrow> double" where
  "fneg (Finite a) = Finite (- a)"
| "fneg PInf = NInf"
| "fneg NInf = PInf"
| "fneg NaN = NaN"

fun fadd :: "double \<Rightarrow> double \<Rightarrow> double" where
  "fadd (Finite a) (Finite b) = to_double (a + b)"
| "fadd NaN b = NaN"
| "fadd a NaN = NaN"
| "fadd PInf NInf = NaN"
| "fadd NInf PInf = NaN"
| "fadd PInf b = PInf"
| "fadd a PInf = PInf"
| "fadd NInf b = NInf"
| "fadd a NInf = NInf"

definition fsub :: "double \<Rightarrow> double \<Rightarrow> double" where
  "fsub a b = fadd a (fneg b)"

text \<open>Multiplication and division as numpy and the hardware do them: \<open>inf * 0\<close>,
  \<open>0 / 0\<close> and \<open>inf / inf\<close> are \<^verbatim>\<open>nan\<close>, a nonzero number over zero is an infinity.\<close>

fun negative :: "double \<Rightarrow> bool" where
  "negative (Finite a) = (a < 0)"
| "negative NInf = True"
| "negative PInf = False"
| "negative NaN = False"

fun fmul :: "double \<Rightarrow> double \<Rightarrow> double" where
  "fmul (Finite a) (Finite b) = to_double (a * b)"
| "fmul a b =
     (if a = NaN \<or> b = NaN \<or> a = Finite 0 \<or> b = Finite 0 then NaN
      else if negative a = negative b then PInf else NInf)"

fun fdiv :: "double \<Rightarrow> double \<Rightarrow> double" where
  "fdiv (Finite a) (Finite b) =
     (if b = 0 then (if a = 0 then NaN else if 0 < a then PInf else NInf)
      else to_double (a / b))"
| "fdiv NaN b = NaN"
| "fdiv a NaN = NaN"
| "fdiv (Finite a) b = Finite 0"
| "fdiv a (Finite b) = (if negative a = (b < 0) then PInf else NInf)"
| "fdiv a b = NaN"

text \<open>\<^verbatim>\<open>/\<close> on two Python floats raises \<^verbatim>\<open>ZeroDivisionError\<close> on a zero divisor and
  overflows silently; \<^verbatim>\<open>** 2\<close> on a Python float raises \<^verbatim>\<open>OverflowError\<close> when the
  result overflows.\<close>

definition py_truediv :: "double \<Rightarrow> double \<Rightarrow> error + double" where
  "py_truediv a b = (if b = Finite 0 then Inl DivisionByZero else Inr (fdiv a b))"

text \<open>\<^verbatim>\<open>np.sqrt\<close> never raises: a negative argument gives \<^verbatim>\<open>nan\<close>.\<close>

fun fsqrt :: "double \<Rightarrow> double" where
  "fsqrt (Finite a) = (if a < 0 then NaN else Finite (sqrt a))"
| "fsqrt PInf = PInf"
| "fsqrt NInf = NaN"
| "fsqrt NaN = NaN"

fun py_pow2 :: "double \<Rightarrow> error + double" where
  "py_pow2 (Finite a) =
     (if overflow_threshold \<le> a ^ 2 then Inl OverflowError else Inr (to_double (a ^ 2)))"
| "py_pow2 PInf = Inr PInf"
| "py_pow2 NInf = Inr PInf"
| "py_pow2 NaN = Inr NaN"

text \<open>\<^verbatim>\<open><\<close> on doubles: every comparison with \<^verbatim>\<open>nan\<close> is false.\<close>

fun fless :: "double \<Rightarrow> double \<Rightarrow> bool" where
  "fless (Finite a) (Finite b) = (a < b)"
| "fless NaN b = False"
| "fless a NaN = False"
| "fless PInf b = False"
| "fless a NInf = False"
| "fless NInf b = True"
| "fless a PInf = True"

text \<open>
  The loop body of \<^verbatim>\<open>secondTry.py\<close> called with Python floats for the charge and the
  point: \<^verbatim>\<open>dx**2\<close>, \<^verbatim>\<open>dy**2\<close> and \<^verbatim>\<open>q / r_squared\<close> are Python operations,
  \<^verbatim>\<open>np.sqrt\<close> returns a numpy scalar, and \<^verbatim>\<open>dx / r\<close>, the products and the sums are numpy
  operations, which never raise.
\<close>

type_synonym dcharge = "double \<times> double \<times> double"
type_synonym dvec = "double \<times> double"

fun field_body_double :: "dcharge \<Rightarrow> double \<Rightarrow> double \<Rightarrow> dvec \<Rightarrow> error + dvec" where
  "field_body_double (q, qx, qy) x y (E_x, E_y) =
     (let dx = fsub x qx;
          dy = fsub y qy
      in case py_pow2 dx of
           Inl e \<Rightarrow> Inl e
         | Inr dx2 \<Rightarrow>
            (case py_pow2 dy of
               Inl e \<Rightarrow> Inl e
             | Inr dy2 \<Rightarrow>
                (let r_squared = fadd dx2 dy2
                 in if fless r_squared (Finite (epsilon ^ 2)) then Inr (E_x, E_y)
                    else
                      (let r = fsqrt r_squared
                       in case py_truediv q r_squared of
                            Inl e \<Rightarrow> Inl e
                          | Inr E \<Rightarrow>
                              Inr (fadd E_x (fmul E (fdiv dx r)),
                                   fadd E_y (fmul E (fdiv dy r)))))))"

fun field_loop_double :: "dcharge list \<Rightarrow> double \<Rightarrow> double \<Rightarrow> dvec \<Rightarrow> error + dvec" where
  "field_loop_double [] x y acc = Inr acc"
| "field_loop_double (c # cs) x y acc =
     (case field_body_double c x y acc of
        Inl e \<Rightarrow> Inl e
      | Inr acc' \<Rightarrow> field_loop_double cs x y acc')"

definition get_electric_field_double :: "dcharge list \<Rightarrow> double \<Rightarrow> double \<Rightarrow> error + dvec" where
  "get_electric_field_double charges x y = field_loop_double charges x y (Finite 0, Finite 0)"

text \<open>The same for \<^verbatim>\<open>first try.py\<close>, with the guard \<^verbatim>\<open>r_squared == 0\<close>.\<close>

fun field_body_first_double :: "dcharge \<Rightarrow> double \<Rightarrow> double \<Rightarrow> dvec \<Rightarrow> error + dvec" where
  "field_body_first_double (q, qx, qy) x y (E_x, E_y) =
     (let dx = fsub x qx;
          dy = fsub y qy
      in case py_pow2 dx of
           Inl e \<Rightarrow> Inl e
         | Inr dx2 \<Rightarrow>
            (case py_pow2 dy of
               Inl e \<Rightarrow> Inl e
             | Inr dy2 \<Rightarrow>
                (let r_squared = fadd dx2 dy2
                 in if r_squared = Finite 0 then Inr (E_x, E_y)
                    else
                      (let r = fsqrt r_squared
                       in case py_truediv q r_squared of
                            Inl e \<Rightarrow> Inl e
                          | Inr E \<Rightarrow>
                              Inr (fadd E_x (fmul E (fdiv dx r)),
                                   fadd E_y (fmul E (fdiv dy r)))))))"

fun field_loop_first_double :: "dcharge list \<Rightarrow> double \<Rightarrow> double \<Rightarrow> dvec \<Rightarrow> error + dvec" where
  "field_loop_first_double [] x y acc = Inr acc"
| "field_loop_first_double (c # cs) x y acc =
     (case field_body_first_double c x y acc of
        Inl e \<Rightarrow> Inl e
      | Inr acc' \<Rightarrow> field_loop_first_double cs x y acc')"

definition get_electric_field_first_double ::
  "dcharge list \<Rightarrow> double \<Rightarrow> double \<Rightarrow> error + dvec" where
  "get_electric_field_first_double charges x y =
     field_loop_first_double charges x y (Finite 0, Finite 0)"

text \<open>The value of \<^verbatim>\<open>r_squared\<close> that both bodies compute first, when \<^verbatim>\<open>**\<close> does not
  raise.\<close>

definition r_squared_double :: "dcharge \<Rightarrow> double \<Rightarrow> double \<Rightarrow> error + double" where
  "r_squared_double c x y =
     (case c of (q, qx, qy) \<Rightarrow>
        (case py_pow2 (fsub x qx) of
           Inl e \<Rightarrow> Inl e
         | Inr dx2 \<Rightarrow>
            (case py_pow2 (fsub y qy) of
               Inl e \<Rightarrow> Inl e
             | Inr dy2 \<Rightarrow> Inr (fadd dx2 dy2))))"

subsection \<open>What one charge adds\<close>

text \<open>The Coulomb term the body adds for a charge it does not skip, with unit constant.\<close>

definition coulomb :: "charge \<Rightarrow> real \<Rightarrow> real \<Rightarrow> vec" where
  "coulomb c x y =
     (case c of (q, qx, qy) \<Rightarrow>
        (q / ((x - qx) ^ 2 + (y - qy) ^ 2) * ((x - qx) / sqrt ((x - qx) ^ 2 + (y - qy) ^ 2)),
         q / ((x - qx) ^ 2 + (y - qy) ^ 2) * ((y - qy) / sqrt ((x - qx) ^ 2 + (y - qy) ^ 2))))"

definition r2 :: "charge \<Rightarrow> real \<Rightarrow> real \<Rightarrow> real" where
  "r2 c x y = (case c of (q, qx, qy) \<Rightarrow> (x - qx) ^ 2 + (y - qy) ^ 2)"

definition vadd :: "vec \<Rightarrow> vec \<Rightarrow> vec" where
  "vadd a b = (fst a + fst b, snd a + snd b)"

text \<open>What a charge adds under each guard: nothing when skipped, else its Coulomb term.\<close>

definition contribution :: "charge \<Rightarrow> real \<Rightarrow> real \<Rightarrow> vec" where
  "contribution c x y = (if r2 c x y < epsilon ^ 2 then (0, 0) else coulomb c x y)"

definition contribution_first :: "charge \<Rightarrow> real \<Rightarrow> real \<Rightarrow> vec" where
  "contribution_first c x y = (if r2 c x y = 0 then (0, 0) else coulomb c x y)"

subsection \<open>Arrays and the numpy calls of the sampling step\<close>

text \<open>A two-dimensional numpy array: its shape and its rows. The shape is kept beside the
  rows because an array with no row still has a column count.\<close>

record ndarray =
  shape :: "nat \<times> nat"
  data :: "real list list"

definition np_zeros :: "nat \<times> nat \<Rightarrow> ndarray" where
  "np_zeros sh = \<lparr>shape = sh, data = replicate (fst sh) (replicate (snd sh) 0)\<rparr>"

text \<open>\<^verbatim>\<open>A[i, j]\<close> read and written; an index outside the shape raises \<^verbatim>\<open>IndexError\<close>.\<close>

definition getitem :: "ndarray \<Rightarrow> nat \<Rightarrow> nat \<Rightarrow> error + real" where
  "getitem A i j =
     (if i < fst (shape A) \<and> j < snd (shape A) then Inr (data A ! i ! j) else Inl IndexError)"

definition setitem :: "ndarray \<Rightarrow> nat \<Rightarrow> nat \<Rightarrow> real \<Rightarrow> error + ndarray" where
  "setitem A i j v =
     (if i < fst (shape A) \<and> j < snd (shape A)
      then Inr (A\<lparr>data := (data A)[i := (data A ! i)[j := v]]\<rparr>)
      else Inl IndexError)"

text \<open>\<^verbatim>\<open>np.linspace(start, stop, num)\<close> with its default \<^verbatim>\<open>endpoint=True\<close>, following
  numpy's own steps: the indices \<^verbatim>\<open>0 .. num-1\<close> are scaled by \<^verbatim>\<open>step = delta / div\<close>
  (or divided first when the step is zero), shifted by \<^verbatim>\<open>start\<close>, and the last sample is
  overwritten with \<^verbatim>\<open>stop\<close>. A negative \<^verbatim>\<open>num\<close> raises \<^verbatim>\<open>ValueError\<close>.\<close>

definition linspace :: "real \<Rightarrow> real \<Rightarrow> int \<Rightarrow> error + real list" where
  "linspace start stop num =
     (if num < 0 then Inl ValueError
      else
        (let dv = num - 1;
             delta = stop - start;
             y = map real [0..<nat num];
             y = (if 0 < dv then
                    (let step = delta / real_of_int dv
                     in if step = 0 then map (\<lambda>v. v / real_of_int dv * delta) y
                        else map (\<lambda>v. v * step) y)
                  else map (\<lambda>v. v * delta) y);
             y = map (\<lambda>v. v + start) y
         in Inr (if 1 < num then y[nat num - 1 := stop] else y)))"

text \<open>\<^verbatim>\<open>np.meshgrid(x, y)\<close>: both results have shape \<^verbatim>\<open>(len(y), len(x))\<close>; \<open>X\<close> repeats
  \<open>x\<close> in every row and \<open>Y\<close> repeats \<open>y\<close> in every column.\<close>

definition meshgrid :: "real list \<Rightarrow> real list \<Rightarrow> ndarray \<times> ndarray" where
  "meshgrid x y =
     (\<lparr>shape = (length y, length x), data = replicate (length y) x\<rparr>,
      \<lparr>shape = (length y, length x), data = map (\<lambda>v. replicate (length x) v) y\<rparr>)"

subsection \<open>The sampling step of \<^verbatim>\<open>create_plot\<close> and \<^verbatim>\<open>plot_electric_field\<close>\<close>

text \<open>
  Both scripts build the grid and fill \<^verbatim>\<open>Ex\<close> and \<^verbatim>\<open>Ey\<close> with the same lines; each calls
  the \<^verbatim>\<open>get_electric_field\<close> of its own file, which is the parameter \<open>field\<close> here.
  The inner loop runs over \<^verbatim>\<open>range(Y.shape[1])\<close>, the outer one over
  \<^verbatim>\<open>range(X.shape[0])\<close>; the pair of arrays is the state they update.
\<close>

type_synonym evaluator = "charge list \<Rightarrow> real \<Rightarrow> real \<Rightarrow> error + vec"

fun inner_loop ::
  "evaluator \<Rightarrow> charge list \<Rightarrow> ndarray \<Rightarrow> ndarray \<Rightarrow> nat \<Rightarrow> nat list \<Rightarrow>
     ndarray \<times> ndarray \<Rightarrow> error + ndarray \<times> ndarray" where
  "inner_loop field charges X Y i [] (E_x, E_y) = Inr (E_x, E_y)"
| "inner_loop field charges X Y i (j # js) (E_x, E_y) =
     (case getitem X i j of
        Inl e \<Rightarrow> Inl e
      | Inr xv \<Rightarrow>
         (case getitem Y i j of
            Inl e \<Rightarrow> Inl e
          | Inr yv \<Rightarrow>
             (case field charges xv yv of
                Inl e \<Rightarrow> Inl e
              | Inr (ex, ey) \<Rightarrow>
                 (case setitem E_x i j ex of
                    Inl e \<Rightarrow> Inl e
                  | Inr E_x' \<Rightarrow>
                     (case setitem E_y i j ey of
                        Inl e \<Rightarrow> Inl e
                      | Inr E_y' \<Rightarrow> inner_loop field charges X Y i js (E_x', E_y'))))))"

fun outer_loop ::
  "evaluator \<Rightarrow> charge list \<Rightarrow> ndarray \<Rightarrow> ndarray \<Rightarrow> nat list \<Rightarrow>
     ndarray \<times> ndarray \<Rightarrow> error + ndarray \<times> ndarray" where
  "outer_loop field charges X Y [] arrays = Inr arrays"
| "outer_loop field charges X Y (i # is) arrays =
     (case inner_loop field charges X Y i [0..<snd (shape Y)] arrays of
        Inl e \<Rightarrow> Inl e
      | Inr arrays' \<Rightarrow> outer_loop field charges X Y is arrays')"

definition sample_field ::
  "evaluator \<Rightarrow> charge list \<Rightarrow> real \<times> real \<Rightarrow> real \<times> real \<Rightarrow> int \<Rightarrow>
     error + ndarray \<times> ndarray" where
  "sample_field field charges x_range y_range grid_density =
     (case linspace (fst x_range) (snd x_range) grid_density of
        Inl e \<Rightarrow> Inl e
      | Inr x \<Rightarrow>
         (case linspace (fst y_range) (snd y_range) grid_density of
            Inl e \<Rightarrow> Inl e
          | Inr y \<Rightarrow>
             (case meshgrid x y of
                (X, Y) \<Rightarrow>
                  outer_loop field charges X Y [0..<fst (shape X)]
                    (np_zeros (shape X), np_zeros (shape Y)))))"

text \<open>The arrays \<^verbatim>\<open>(Ex, Ey)\<close> that \<^verbatim>\<open>create_plot\<close> of \<^verbatim>\<open>secondTry.py\<close> and
  \<^verbatim>\<open>plot_electric_field\<close> of \<^verbatim>\<open>first try.py\<close> hold when the loops are done; the
  plotting that follows is outside this development.\<close>

definition create_plot_field ::
  "charge list \<Rightarrow> real \<times> real \<Rightarrow> real \<times> real \<Rightarrow> int \<Rightarrow> error + ndarray \<times> ndarray" where
  "create_plot_field = sample_field get_electric_field"

definition plot_electric_field_field ::
  "charge list \<Rightarrow> real \<times> real \<Rightarrow> real \<times> real \<Rightarrow> int \<Rightarrow> error + ndarray \<times> ndarray" where
  "plot_electric_field_field = sample_field get_electric_field_first"

subsection \<open>Predicates for the proofs\<close>

text \<open>An array of shape \<open>(m, n)\<close> with \<open>m\<close> rows of length \<open>n\<close>, every cell satisfying \<open>P\<close>;
  and an evaluator that, on the given charges, always returns a pair satisfying \<open>P\<close>.\<close>

definition filled :: "(real \<Rightarrow> bool) \<Rightarrow> nat \<Rightarrow> nat \<Rightarrow> ndarray \<Rightarrow> bool" where
  "filled P m n A =
     (shape A = (m, n) \<and> length (data A) = m \<and>
      list_all (\<lambda>r. length r = n \<and> list_all P r) (data A))"

definition yields :: "(real \<Rightarrow> bool) \<Rightarrow> evaluator \<Rightarrow> charge list \<Rightarrow> bool" where
  "yields P field charges =
     (\<forall>x y. \<exists>ex ey. field charges x y = Inr (ex, ey) \<and> P ex \<and> P ey)"

section \<open>Properties of the evaluator\<close>

subsection \<open>The loop body and the loop in closed form\<close>

lemma r2_nonneg: "0 \<le> r2 c x y"
  by (cases c) (simp add: r2_def)

lemma epsilon_sq_pos: "0 < epsilon ^ 2"
  by (simp add: epsilon_def)

lemma epsilon_sq: "epsilon ^ 2 = 1 / 1000000000000"
  by (simp add: epsilon_def power_divide)

lemma body_arith:
  fixes d :: real
  assumes "0 < d"
  shows "np_sqrt d = Inr (sqrt d)" and "divide_py a d = Inr (a / d)"
    and "divide_py b (sqrt d) = Inr (b / sqrt d)"
  using assms by (simp_all add: np_sqrt_def divide_py_def)

lemma field_body_eq:
  "field_body c x y (E_x, E_y) =
     Inr (if r2 c x y < epsilon ^ 2 then (E_x, E_y)
          else (E_x + fst (coulomb c x y), E_y + snd (coulomb c x y)))"
proof (cases c)
  case (fields q qx qy)
  define d where "d = (x - qx) ^ 2 + (y - qy) ^ 2"
  have body: "field_body c x y (E_x, E_y) =
      (if d < epsilon ^ 2 then Inr (E_x, E_y)
       else
         (case np_sqrt d of
            Inl e \<Rightarrow> Inl e
          | Inr r \<Rightarrow>
             (case divide_py q d of
                Inl e \<Rightarrow> Inl e
              | Inr E \<Rightarrow>
                 (case divide_py (x - qx) r of
                    Inl e \<Rightarrow> Inl e
                  | Inr ux \<Rightarrow>
                     (case divide_py (y - qy) r of
                        Inl e \<Rightarrow> Inl e
                      | Inr uy \<Rightarrow> Inr (E_x + E * ux, E_y + E * uy))))))"
    unfolding fields d_def by (simp only: field_body.simps Let_def)
  have contrib: "coulomb c x y = (q / d * ((x - qx) / sqrt d), q / d * ((y - qy) / sqrt d))"
    and dist: "r2 c x y = d"
    unfolding fields d_def by (simp_all only: coulomb_def r2_def prod.case)
  show ?thesis
  proof (cases "d < epsilon ^ 2")
    case True
    then show ?thesis by (simp only: body dist if_True)
  next
    case False
    with epsilon_sq_pos have "0 < d" by linarith
    then show ?thesis
      unfolding body dist contrib using False by (simp add: body_arith)
  qed
qed

lemma field_body_first_eq:
  "field_body_first c x y (E_x, E_y) =
     Inr (if r2 c x y = 0 then (E_x, E_y)
          else (E_x + fst (coulomb c x y), E_y + snd (coulomb c x y)))"
proof (cases c)
  case (fields q qx qy)
  define d where "d = (x - qx) ^ 2 + (y - qy) ^ 2"
  have body: "field_body_first c x y (E_x, E_y) =
      (if d = 0 then Inr (E_x, E_y)
       else
         (case np_sqrt d of
            Inl e \<Rightarrow> Inl e
          | Inr r \<Rightarrow>
             (case divide_py q d of
                Inl e \<Rightarrow> Inl e
              | Inr E \<Rightarrow>
                 (case divide_py (x - qx) r of
                    Inl e \<Rightarrow> Inl e
                  | Inr ux \<Rightarrow>
                     (case divide_py (y - qy) r of
                        Inl e \<Rightarrow> Inl e
                      | Inr uy \<Rightarrow> Inr (E_x + E * ux, E_y + E * uy))))))"
    unfolding fields d_def by (simp only: field_body_first.simps Let_def)
  have contrib: "coulomb c x y = (q / d * ((x - qx) / sqrt d), q / d * ((y - qy) / sqrt d))"
    and dist: "r2 c x y = d"
    unfolding fields d_def by (simp_all only: coulomb_def r2_def prod.case)
  have nonneg: "0 \<le> d" unfolding d_def by simp
  show ?thesis
  proof (cases "d = 0")
    case True
    then show ?thesis by (simp add: body dist)
  next
    case False
    with nonneg have "0 < d" by linarith
    then show ?thesis
      unfolding body dist contrib using False by (simp add: body_arith)
  qed
qed

lemma field_body_contribution:
  "field_body c x y acc = Inr (vadd acc (contribution c x y))"
  by (cases acc) (simp add: field_body_eq vadd_def contribution_def)

lemma field_body_first_contribution:
  "field_body_first c x y acc = Inr (vadd acc (contribution_first c x y))"
  by (cases acc) (simp add: field_body_first_eq vadd_def contribution_first_def)

lemma field_loop_eq:
  "field_loop cs x y acc = Inr (foldl (\<lambda>a c. vadd a (contribution c x y)) acc cs)"
  by (induction cs arbitrary: acc) (simp_all add: field_body_contribution)

lemma field_loop_first_eq:
  "field_loop_first cs x y acc = Inr (foldl (\<lambda>a c. vadd a (contribution_first c x y)) acc cs)"
  by (induction cs arbitrary: acc) (simp_all add: field_body_first_contribution)

lemma vadd_zero_left: "vadd (0, 0) v = v"
  by (simp add: vadd_def)

lemma vadd_zero_right: "vadd v (0, 0) = v"
  by (simp add: vadd_def)

lemma get_single: "get_electric_field [c] x y = Inr (contribution c x y)"
  by (simp add: get_electric_field_def field_loop_eq vadd_zero_left)

lemma get_single_first: "get_electric_field_first [c] x y = Inr (contribution_first c x y)"
  by (simp add: get_electric_field_first_def field_loop_first_eq vadd_zero_left)

lemma get_pair:
  "get_electric_field [a, b] x y = Inr (vadd (contribution a x y) (contribution b x y))"
  by (simp add: get_electric_field_def field_loop_eq vadd_zero_left)

lemma get_pair_first:
  "get_electric_field_first [a, b] x y =
     Inr (vadd (contribution_first a x y) (contribution_first b x y))"
  by (simp add: get_electric_field_first_def field_loop_first_eq vadd_zero_left)

lemma get_total: "\<exists>v. get_electric_field charges x y = Inr v"
  by (simp add: get_electric_field_def field_loop_eq)

lemma get_total_first: "\<exists>v. get_electric_field_first charges x y = Inr v"
  by (simp add: get_electric_field_first_def field_loop_first_eq)

subsection \<open>Superposition\<close>

text \<open>The sum of the two single-charge fields is the field of the pair, whether or not
  a charge is skipped: a skipped charge adds nothing on either side.\<close>

lemma superposition_any:
  "\<exists>a b. get_electric_field [A] x y = Inr a \<and> get_electric_field [B] x y = Inr b \<and>
     get_electric_field [A, B] x y = Inr (fst a + fst b, snd a + snd b)"
  by (simp add: get_single get_pair vadd_def)

lemma superposition_any_first:
  "\<exists>a b. get_electric_field_first [A] x y = Inr a \<and> get_electric_field_first [B] x y = Inr b \<and>
     get_electric_field_first [A, B] x y = Inr (fst a + fst b, snd a + snd b)"
  by (simp add: get_single_first get_pair_first vadd_def)

text \<open>
  Claim C1 (superposition linearity). For two charges \<open>A\<close> and \<open>B\<close> and a query point
  \<open>(x, y)\<close> whose squared distance to each is at least the skip tolerance
  (\<open>epsilon\<^sup>2\<close> in \<^verbatim>\<open>secondTry.py\<close>, nonzero in \<^verbatim>\<open>first try.py\<close>), the field of the
  list \<open>[A, B]\<close> is the component-wise sum of the fields of \<open>[A]\<close> and \<open>[B]\<close>.
\<close>

theorem superposition_linearity:
  "(epsilon ^ 2 \<le> r2 A x y \<and> epsilon ^ 2 \<le> r2 B x y \<longrightarrow>
      (\<exists>a b. get_electric_field [A] x y = Inr a \<and> get_electric_field [B] x y = Inr b \<and>
         get_electric_field [A, B] x y = Inr (fst a + fst b, snd a + snd b))) \<and>
   (r2 A x y \<noteq> 0 \<and> r2 B x y \<noteq> 0 \<longrightarrow>
      (\<exists>a b. get_electric_field_first [A] x y = Inr a \<and>
         get_electric_field_first [B] x y = Inr b \<and>
         get_electric_field_first [A, B] x y = Inr (fst a + fst b, snd a + snd b)))"
  using superposition_any [of A x y B] superposition_any_first [of A x y B] by blast

theorem superposition_linearity_witness:
  "epsilon ^ 2 \<le> r2 (1, 3, 4) 0 0 \<and> epsilon ^ 2 \<le> r2 (2, -6, 8) 0 0 \<and>
   (\<exists>a b. get_electric_field [(1, 3, 4)] 0 0 = Inr a \<and>
      get_electric_field [(2, -6, 8)] 0 0 = Inr b \<and>
      get_electric_field [(1, 3, 4), (2, -6, 8)] 0 0 = Inr (fst a + fst b, snd a + snd b)) \<and>
   r2 (1, 3, 4) 0 0 \<noteq> 0 \<and> r2 (2, -6, 8) 0 0 \<noteq> 0 \<and>
   (\<exists>a b. get_electric_field_first [(1, 3, 4)] 0 0 = Inr a \<and>
      get_electric_field_first [(2, -6, 8)] 0 0 = Inr b \<and>
      get_electric_field_first [(1, 3, 4), (2, -6, 8)] 0 0 =
        Inr (fst a + fst b, snd a + snd b))"
proof -
  have near: "epsilon ^ 2 \<le> r2 (1, 3, 4) 0 0" "epsilon ^ 2 \<le> r2 (2, -6, 8) 0 0"
    by (simp_all add: r2_def epsilon_sq)
  have apart: "r2 (1, 3, 4) 0 0 \<noteq> 0" "r2 (2, -6, 8) 0 0 \<noteq> 0"
    by (simp_all add: r2_def)
  from near apart superposition_linearity [of "(1, 3, 4)" 0 0 "(2, -6, 8)"]
  show ?thesis by blast
qed

subsection \<open>Singularity\<close>

lemma single_at_charge: "get_electric_field [(1, 0, 0)] 0 0 = Inr (0, 0)"
  by (simp add: get_single contribution_def r2_def epsilon_sq)

lemma single_at_charge_first: "get_electric_field_first [(1, 0, 0)] 0 0 = Inr (0, 0)"
  by (simp add: get_single_first contribution_first_def r2_def)

lemma body_skip: "r2 c x y < epsilon ^ 2 \<Longrightarrow> field_body c x y acc = Inr acc"
  by (simp add: field_body_contribution contribution_def vadd_zero_right)

lemma body_skip_first: "r2 c x y = 0 \<Longrightarrow> field_body_first c x y acc = Inr acc"
  by (simp add: field_body_first_contribution contribution_first_def vadd_zero_right)

lemma sqrt_25: "sqrt 25 = 5"
  by (rule real_sqrt_unique) simp_all

lemma on_second_charge:
  "get_electric_field [(1, 0, 0), (2, 3, 4)] 3 4 = Inr (3 / 125, 4 / 125)"
  "get_electric_field_first [(1, 0, 0), (2, 3, 4)] 3 4 = Inr (3 / 125, 4 / 125)"
  by (simp_all add: get_pair get_pair_first contribution_def contribution_first_def r2_def
      epsilon_sq coulomb_def vadd_def sqrt_25)

subsection \<open>Singularity on doubles\<close>

text \<open>On doubles the evaluators can raise \<^verbatim>\<open>OverflowError\<close> and nothing else: the
  divisor \<^verbatim>\<open>r_squared\<close> is zero only for a charge that the guard skips, also when the zero
  comes from underflow.\<close>

lemmas range_simps = to_double_def overflow_threshold_def underflow_threshold_def

lemma py_pow2_cases: "py_pow2 a = Inl OverflowError \<or> (\<exists>v. py_pow2 a = Inr v)"
  by (cases a) auto

lemma r_squared_double_cases:
  "r_squared_double c x y = Inl OverflowError \<or> (\<exists>d. r_squared_double c x y = Inr d)"
proof -
  obtain q qx qy where c: "c = (q, qx, qy)" by (cases c)
  from py_pow2_cases [of "fsub x qx"] py_pow2_cases [of "fsub y qy"] show ?thesis
    by (auto simp add: r_squared_double_def c)
qed

lemma body_double_eq:
  "field_body_double (q, qx, qy) x y (E_x, E_y) =
     (case r_squared_double (q, qx, qy) x y of
        Inl e \<Rightarrow> Inl e
      | Inr d \<Rightarrow>
          if fless d (Finite (epsilon ^ 2)) then Inr (E_x, E_y)
          else
            (case py_truediv q d of
               Inl e \<Rightarrow> Inl e
             | Inr E \<Rightarrow>
                 Inr (fadd E_x (fmul E (fdiv (fsub x qx) (fsqrt d))),
                      fadd E_y (fmul E (fdiv (fsub y qy) (fsqrt d))))))"
  by (simp add: r_squared_double_def Let_def split: sum.splits)

lemma body_first_double_eq:
  "field_body_first_double (q, qx, qy) x y (E_x, E_y) =
     (case r_squared_double (q, qx, qy) x y of
        Inl e \<Rightarrow> Inl e
      | Inr d \<Rightarrow>
          if d = Finite 0 then Inr (E_x, E_y)
          else
            (case py_truediv q d of
               Inl e \<Rightarrow> Inl e
             | Inr E \<Rightarrow>
                 Inr (fadd E_x (fmul E (fdiv (fsub x qx) (fsqrt d))),
                      fadd E_y (fmul E (fdiv (fsub y qy) (fsqrt d))))))"
  by (simp add: r_squared_double_def Let_def split: sum.splits)

lemma guard_at_zero: "fless (Finite 0) (Finite (epsilon ^ 2))"
  using epsilon_sq_pos by simp

lemma not_skipped_nonzero:
  assumes "\<not> fless d (Finite (epsilon ^ 2))"
  shows "d \<noteq> Finite 0"
  using assms guard_at_zero by auto

lemma fsqrt_nonzero: "d \<noteq> Finite 0 \<Longrightarrow> fsqrt d \<noteq> Finite 0"
  by (cases d) auto

lemma truediv_nonzero: "d \<noteq> Finite 0 \<Longrightarrow> py_truediv q d = Inr (fdiv q d)"
  by (simp add: py_truediv_def)

lemma body_double_skip:
  assumes "r_squared_double c x y = Inr d" "fless d (Finite (epsilon ^ 2))"
  shows "field_body_double c x y acc = Inr acc"
  using assms by (cases c; cases acc) (simp add: body_double_eq del: field_body_double.simps)

lemma body_first_double_skip:
  assumes "r_squared_double c x y = Inr (Finite 0)"
  shows "field_body_first_double c x y acc = Inr acc"
  using assms by (cases c; cases acc) (simp add: body_first_double_eq del: field_body_first_double.simps)

lemma body_double_result:
  "field_body_double c x y acc = Inl OverflowError \<or> (\<exists>v. field_body_double c x y acc = Inr v)"
proof -
  obtain q qx qy where c: "c = (q, qx, qy)" by (cases c)
  obtain a b where acc: "acc = (a, b)" by (cases acc)
  from r_squared_double_cases [of c x y] show ?thesis
  proof
    assume "r_squared_double c x y = Inl OverflowError"
    then show ?thesis by (simp add: c acc body_double_eq del: field_body_double.simps)
  next
    assume "\<exists>d. r_squared_double c x y = Inr d"
    then obtain d where d: "r_squared_double (q, qx, qy) x y = Inr d" unfolding c ..
    show ?thesis
    proof (cases "fless d (Finite (epsilon ^ 2))")
      case True
      then show ?thesis by (simp add: c acc body_double_eq d del: field_body_double.simps)
    next
      case False
      from truediv_nonzero [OF not_skipped_nonzero [OF False]] False show ?thesis
        by (simp add: c acc body_double_eq d del: field_body_double.simps)
    qed
  qed
qed

lemma body_first_double_result:
  "field_body_first_double c x y acc = Inl OverflowError \<or>
     (\<exists>v. field_body_first_double c x y acc = Inr v)"
proof -
  obtain q qx qy where c: "c = (q, qx, qy)" by (cases c)
  obtain a b where acc: "acc = (a, b)" by (cases acc)
  from r_squared_double_cases [of c x y] show ?thesis
  proof
    assume "r_squared_double c x y = Inl OverflowError"
    then show ?thesis by (simp add: c acc body_first_double_eq del: field_body_first_double.simps)
  next
    assume "\<exists>d. r_squared_double c x y = Inr d"
    then obtain d where d: "r_squared_double (q, qx, qy) x y = Inr d" unfolding c ..
    show ?thesis
    proof (cases "d = Finite 0")
      case True
      then show ?thesis by (simp add: c acc body_first_double_eq d del: field_body_first_double.simps)
    next
      case False
      from truediv_nonzero [OF False] False show ?thesis
        by (simp add: c acc body_first_double_eq d del: field_body_first_double.simps)
    qed
  qed
qed

lemma loop_double_result:
  "field_loop_double cs x y acc = Inl OverflowError \<or> (\<exists>v. field_loop_double cs x y acc = Inr v)"
proof (induction cs arbitrary: acc)
  case Nil
  show ?case by simp
next
  case (Cons c cs)
  from body_double_result [of c x y acc] show ?case
  proof
    assume "field_body_double c x y acc = Inl OverflowError"
    then show ?thesis by simp
  next
    assume "\<exists>v. field_body_double c x y acc = Inr v"
    then obtain v where "field_body_double c x y acc = Inr v" ..
    with Cons.IH [of v] show ?thesis by simp
  qed
qed

lemma loop_first_double_result:
  "field_loop_first_double cs x y acc = Inl OverflowError \<or>
     (\<exists>v. field_loop_first_double cs x y acc = Inr v)"
proof (induction cs arbitrary: acc)
  case Nil
  show ?case by simp
next
  case (Cons c cs)
  from body_first_double_result [of c x y acc] show ?case
  proof
    assume "field_body_first_double c x y acc = Inl OverflowError"
    then show ?thesis by simp
  next
    assume "\<exists>v. field_body_first_double c x y acc = Inr v"
    then obtain v where "field_body_first_double c x y acc = Inr v" ..
    with Cons.IH [of v] show ?thesis by simp
  qed
qed

lemma r_squared_at_charge: "r_squared_double (q, Finite a, Finite b) (Finite a) (Finite b) = Inr (Finite 0)"
  by (simp add: r_squared_double_def fsub_def range_simps)

lemma double_at_charge:
  "get_electric_field_double [(Finite 1, Finite 0, Finite 0)] (Finite 0) (Finite 0) =
     Inr (Finite 0, Finite 0)"
  "get_electric_field_first_double [(Finite 1, Finite 0, Finite 0)] (Finite 0) (Finite 0) =
     Inr (Finite 0, Finite 0)"
  by (simp_all add: get_electric_field_double_def get_electric_field_first_double_def
      body_double_eq body_first_double_eq r_squared_at_charge guard_at_zero
      del: fless.simps field_body_double.simps field_body_first_double.simps)


lemma get_double_result:
  "get_electric_field_double charges x y = Inl OverflowError \<or>
     (\<exists>v. get_electric_field_double charges x y = Inr v)"
  unfolding get_electric_field_double_def by (rule loop_double_result)

lemma get_first_double_result:
  "get_electric_field_first_double charges x y = Inl OverflowError \<or>
     (\<exists>v. get_electric_field_first_double charges x y = Inr v)"
  unfolding get_electric_field_first_double_def by (rule loop_first_double_result)

lemma divisors_nonzero:
  "\<not> fless d (Finite (epsilon ^ 2)) \<Longrightarrow> d \<noteq> Finite 0 \<and> fsqrt d \<noteq> Finite 0"
  using not_skipped_nonzero [of d] fsqrt_nonzero [of d] by blast

text \<open>
  Claim C2 (singularity safety), as the code has it. The field of the single charge
  \<open>(1, 0, 0)\<close> at the point \<open>(0, 0)\<close> is \<open>(0, 0)\<close>, in exact arithmetic and on doubles.
  \<^verbatim>\<open>get_electric_field\<close> never divides by zero, for any charge list and query point: in
  exact arithmetic it always returns a pair of reals; on doubles it returns a pair or
  raises \<^verbatim>\<open>OverflowError\<close>, never \<^verbatim>\<open>ZeroDivisionError\<close>. When the guard fires the body
  returns the accumulator as it is, so the divisions by \<^verbatim>\<open>r_squared\<close> and by \<^verbatim>\<open>r\<close> are
  not reached; when it does not fire, both divisors are nonzero. All of it holds for
  both scripts. That the returned pair is finite on doubles is not part of the
  statement.
\<close>

theorem singularity_safety:
  "get_electric_field [(1, 0, 0)] 0 0 = Inr (0, 0) \<and>
   get_electric_field_first [(1, 0, 0)] 0 0 = Inr (0, 0) \<and>
   (\<exists>v. get_electric_field charges x y = Inr v) \<and>
   (\<exists>v. get_electric_field_first charges x y = Inr v) \<and>
   (r2 c x y < epsilon ^ 2 \<longrightarrow> field_body c x y acc = Inr acc) \<and>
   (r2 c x y = 0 \<longrightarrow> field_body_first c x y acc = Inr acc) \<and>
   get_electric_field_double [(Finite 1, Finite 0, Finite 0)] (Finite 0) (Finite 0) =
     Inr (Finite 0, Finite 0) \<and>
   get_electric_field_first_double [(Finite 1, Finite 0, Finite 0)] (Finite 0) (Finite 0) =
     Inr (Finite 0, Finite 0) \<and>
   (get_electric_field_double dcharges px py = Inl OverflowError \<or>
      (\<exists>v. get_electric_field_double dcharges px py = Inr v)) \<and>
   (get_electric_field_first_double dcharges px py = Inl OverflowError \<or>
      (\<exists>v. get_electric_field_first_double dcharges px py = Inr v)) \<and>
   (r_squared_double dc px py = Inr d \<and> fless d (Finite (epsilon ^ 2)) \<longrightarrow>
      field_body_double dc px py dacc = Inr dacc) \<and>
   (r_squared_double dc px py = Inr (Finite 0) \<longrightarrow>
      field_body_first_double dc px py dacc = Inr dacc) \<and>
   (\<not> fless d (Finite (epsilon ^ 2)) \<longrightarrow> d \<noteq> Finite 0 \<and> fsqrt d \<noteq> Finite 0) \<and>
   (d \<noteq> Finite 0 \<longrightarrow> fsqrt d \<noteq> Finite 0)"
  using single_at_charge single_at_charge_first get_total [of charges x y]
    get_total_first [of charges x y] body_skip [of c x y acc] body_skip_first [of c x y acc]
    double_at_charge get_double_result [of dcharges px py]
    get_first_double_result [of dcharges px py]
    body_double_skip [of dc px py d dacc] body_first_double_skip [of dc px py dacc]
    divisors_nonzero [of d] fsqrt_nonzero [of d]
  by blast

text \<open>At the witness the query point is the position of the second charge: the skipped
  division would have failed, since \<open>r_squared\<close> is zero, and the field is that of the
  first charge alone. At squared distance 25 the guard does not fire and the divisors
  are 25 and 5.\<close>

theorem singularity_safety_witness:
  "r2 (2, 3, 4) 3 4 < epsilon ^ 2 \<and> field_body (2, 3, 4) 3 4 (5, 7) = Inr (5, 7) \<and>
   r2 (2, 3, 4) 3 4 = 0 \<and> field_body_first (2, 3, 4) 3 4 (5, 7) = Inr (5, 7) \<and>
   divide_py 2 (r2 (2, 3, 4) 3 4) = Inl DivisionByZero \<and>
   get_electric_field [(1, 0, 0), (2, 3, 4)] 3 4 = Inr (3 / 125, 4 / 125) \<and>
   get_electric_field_first [(1, 0, 0), (2, 3, 4)] 3 4 = Inr (3 / 125, 4 / 125) \<and>
   r_squared_double (Finite 2, Finite 3, Finite 4) (Finite 3) (Finite 4) = Inr (Finite 0) \<and>
   fless (Finite 0) (Finite (epsilon ^ 2)) \<and>
   py_truediv (Finite 2) (Finite 0) = Inl DivisionByZero \<and>
   field_body_double (Finite 2, Finite 3, Finite 4) (Finite 3) (Finite 4) (Finite 5, PInf) =
     Inr (Finite 5, PInf) \<and>
   field_body_first_double (Finite 2, Finite 3, Finite 4) (Finite 3) (Finite 4) (Finite 5, PInf) =
     Inr (Finite 5, PInf) \<and>
   \<not> fless (Finite 25) (Finite (epsilon ^ 2)) \<and> Finite 25 \<noteq> Finite 0 \<and>
   fsqrt (Finite 25) \<noteq> Finite 0"
proof -
  have zero: "r2 (2, 3, 4) 3 4 = 0" by (simp add: r2_def)
  then have near: "r2 (2, 3, 4) 3 4 < epsilon ^ 2" using epsilon_sq_pos by simp
  have fails: "divide_py 2 (r2 (2, 3, 4) 3 4) = Inl DivisionByZero"
    by (simp add: zero divide_py_def)
  have dzero: "r_squared_double (Finite 2, Finite 3, Finite 4) (Finite 3) (Finite 4) =
      Inr (Finite 0)"
    by (rule r_squared_at_charge)
  have dfails: "py_truediv (Finite 2) (Finite 0) = Inl DivisionByZero"
    by (simp add: py_truediv_def)
  have far: "\<not> fless (Finite 25) (Finite (epsilon ^ 2))" by (simp add: epsilon_sq)
  have apart: "Finite 25 \<noteq> Finite 0" by simp
  note at_charge = singularity_safety [of "[(1, 0, 0), (2, 3, 4)]" 3 4 "(2, 3, 4)" "(5, 7)"
      "[]" "Finite 3" "Finite 4" "(Finite 2, Finite 3, Finite 4)" "Finite 0" "(Finite 5, PInf)"]
  note away = singularity_safety [of "[]" 0 0 "(2, 3, 4)" "(5, 7)"
      "[]" "Finite 3" "Finite 4" "(Finite 2, Finite 3, Finite 4)" "Finite 25" "(Finite 5, PInf)"]
  from zero near fails dzero dfails guard_at_zero far apart on_second_charge at_charge away
  show ?thesis by blast
qed

text \<open>
  On doubles a result can overflow. The inputs below are powers of two, so every
  intermediate result is a double and no rounding takes place. With the charge
  \<open>q = 2\<^sup>1\<^sup>0\<^sup>2\<^sup>3\<close> at distance \<open>2\<^sup>-\<^sup>9\<close>, \<^verbatim>\<open>q / r_squared\<close> is \<open>2\<^sup>1\<^sup>0\<^sup>4\<^sup>1\<close>, an infinity, and
  \<^verbatim>\<open>secondTry.py\<close> returns \<open>(inf, nan)\<close>. At distance \<open>2\<^sup>-\<^sup>5\<^sup>2\<^sup>0\<close> from a unit charge
  \<^verbatim>\<open>r_squared\<close> is the subnormal \<open>2\<^sup>-\<^sup>1\<^sup>0\<^sup>4\<^sup>0\<close>, not zero, and \<^verbatim>\<open>first try.py\<close> returns
  \<open>(inf, nan)\<close>. At \<open>x = 2\<^sup>6\<^sup>0\<^sup>0\<close> the square \<^verbatim>\<open>dx**2\<close> raises \<^verbatim>\<open>OverflowError\<close> in both.
\<close>

lemma sqrt_2_18: "sqrt (1 / 2 ^ 18) = 1 / 2 ^ 9"
  by (rule real_sqrt_unique) (simp_all add: power_divide)

lemma sqrt_2_1040: "sqrt (1 / 2 ^ 1040) = 1 / 2 ^ 520"
  by (rule real_sqrt_unique) (simp_all add: power_divide)

lemma huge_charge:
  "get_electric_field_double [(Finite (2 ^ 1023), Finite 0, Finite 0)] (Finite (1 / 2 ^ 9))
     (Finite 0) = Inr (PInf, NaN)"
proof -
  have d: "r_squared_double (Finite (2 ^ 1023), Finite 0, Finite 0) (Finite (1 / 2 ^ 9)) (Finite 0) =
      Inr (Finite (1 / 2 ^ 18))"
    by (simp add: r_squared_double_def fsub_def range_simps power_divide)
  have dx: "fsub (Finite (1 / 2 ^ 9)) (Finite 0) = Finite (1 / 2 ^ 9)"
    and dy: "fsub (Finite 0) (Finite 0) = Finite 0"
    by (simp_all add: fsub_def range_simps)
  have guard: "\<not> fless (Finite (1 / 2 ^ 18)) (Finite (epsilon ^ 2))"
    by (simp add: epsilon_sq)
  have r: "fsqrt (Finite (1 / 2 ^ 18)) = Finite (1 / 2 ^ 9)"
    using sqrt_2_18 by simp
  have E: "py_truediv (Finite (2 ^ 1023)) (Finite (1 / 2 ^ 18)) = Inr PInf"
    by (simp add: py_truediv_def range_simps)
  have ux: "fdiv (Finite (1 / 2 ^ 9)) (Finite (1 / 2 ^ 9)) = Finite 1"
    and uy: "fdiv (Finite 0) (Finite (1 / 2 ^ 9)) = Finite 0"
    by (simp_all add: range_simps)
  have sums: "fadd (Finite 0) (fmul PInf (Finite 1)) = PInf"
    "fadd (Finite 0) (fmul PInf (Finite 0)) = NaN"
    by simp_all
  have "field_body_double (Finite (2 ^ 1023), Finite 0, Finite 0) (Finite (1 / 2 ^ 9)) (Finite 0)
      (Finite 0, Finite 0) = Inr (PInf, NaN)"
    by (simp only: body_double_eq d dx dy guard r E ux uy sums sum.case if_False)
  then show ?thesis
    by (simp only: get_electric_field_double_def field_loop_double.simps sum.case)
qed

lemma near_charge_first:
  "get_electric_field_first_double [(Finite 1, Finite 0, Finite 0)] (Finite (1 / 2 ^ 520))
     (Finite 0) = Inr (PInf, NaN)"
proof -
  have d: "r_squared_double (Finite 1, Finite 0, Finite 0) (Finite (1 / 2 ^ 520)) (Finite 0) =
      Inr (Finite (1 / 2 ^ 1040))"
    by (simp add: r_squared_double_def fsub_def range_simps power_divide)
  have dx: "fsub (Finite (1 / 2 ^ 520)) (Finite 0) = Finite (1 / 2 ^ 520)"
    and dy: "fsub (Finite 0) (Finite 0) = Finite 0"
    by (simp_all add: fsub_def range_simps)
  have guard: "Finite (1 / 2 ^ 1040) \<noteq> Finite 0"
    by simp
  have r: "fsqrt (Finite (1 / 2 ^ 1040)) = Finite (1 / 2 ^ 520)"
    using sqrt_2_1040 by simp
  have E: "py_truediv (Finite 1) (Finite (1 / 2 ^ 1040)) = Inr PInf"
    by (simp add: py_truediv_def range_simps)
  have ux: "fdiv (Finite (1 / 2 ^ 520)) (Finite (1 / 2 ^ 520)) = Finite 1"
    and uy: "fdiv (Finite 0) (Finite (1 / 2 ^ 520)) = Finite 0"
    by (simp_all add: range_simps)
  have sums: "fadd (Finite 0) (fmul PInf (Finite 1)) = PInf"
    "fadd (Finite 0) (fmul PInf (Finite 0)) = NaN"
    by simp_all
  have "field_body_first_double (Finite 1, Finite 0, Finite 0) (Finite (1 / 2 ^ 520)) (Finite 0)
      (Finite 0, Finite 0) = Inr (PInf, NaN)"
    by (simp only: body_first_double_eq d dx dy guard r E ux uy sums sum.case if_False)
  then show ?thesis
    by (simp only: get_electric_field_first_double_def field_loop_first_double.simps sum.case)
qed

lemma far_point:
  "get_electric_field_double [(Finite 1, Finite 0, Finite 0)] (Finite (2 ^ 600)) (Finite 0) =
     Inl OverflowError"
  "get_electric_field_first_double [(Finite 1, Finite 0, Finite 0)] (Finite (2 ^ 600)) (Finite 0) =
     Inl OverflowError"
  by (simp_all add: get_electric_field_double_def get_electric_field_first_double_def fsub_def
      range_simps)

text \<open>The claim as it was stated, that the evaluator never raises and never returns a
  non-finite value, fails at these inputs.\<close>

theorem singularity_safety_overflow:
  "get_electric_field_double [(Finite (2 ^ 1023), Finite 0, Finite 0)] (Finite (1 / 2 ^ 9))
     (Finite 0) = Inr (PInf, NaN) \<and>
   get_electric_field_first_double [(Finite 1, Finite 0, Finite 0)] (Finite (1 / 2 ^ 520))
     (Finite 0) = Inr (PInf, NaN) \<and>
   get_electric_field_double [(Finite 1, Finite 0, Finite 0)] (Finite (2 ^ 600)) (Finite 0) =
     Inl OverflowError \<and>
   get_electric_field_first_double [(Finite 1, Finite 0, Finite 0)] (Finite (2 ^ 600)) (Finite 0) =
     Inl OverflowError"
  using huge_charge near_charge_first far_point by blast

subsection \<open>Magnitude and direction of a single charge's field\<close>

lemma magnitude_arith:
  fixes d q x y :: real
  assumes "0 < d" and "d = x ^ 2 + y ^ 2"
  shows "sqrt ((q / d * (x / sqrt d)) ^ 2 + (q / d * (y / sqrt d)) ^ 2) = \<bar>q\<bar> / d"
proof -
  have s: "(sqrt d) ^ 2 = d" using assms(1) by simp
  have "(q / d * (x / sqrt d)) ^ 2 + (q / d * (y / sqrt d)) ^ 2
      = (q / d) ^ 2 * ((x ^ 2 + y ^ 2) / (sqrt d) ^ 2)"
    by (simp add: power_mult_distrib power_divide algebra_simps add_divide_distrib)
  also have "\<dots> = (q / d) ^ 2" using assms s by simp
  finally have "sqrt ((q / d * (x / sqrt d)) ^ 2 + (q / d * (y / sqrt d)) ^ 2) = \<bar>q / d\<bar>"
    by simp
  then show ?thesis using assms(1) by simp
qed

lemma coulomb_magnitude:
  assumes "0 < r2 (q, qx, qy) x y"
  shows "sqrt ((fst (coulomb (q, qx, qy) x y)) ^ 2 + (snd (coulomb (q, qx, qy) x y)) ^ 2)
           = \<bar>q\<bar> / r2 (q, qx, qy) x y"
  using magnitude_arith [of "(x - qx) ^ 2 + (y - qy) ^ 2" "x - qx" "y - qy" q] assms
  by (simp add: coulomb_def r2_def)

lemma r2_origin: "r2 (q, 0, 0) x y = x ^ 2 + y ^ 2"
  by (simp add: r2_def)

lemma falloff_second:
  assumes "epsilon < sqrt (x ^ 2 + y ^ 2)"
  shows "\<exists>ex ey. get_electric_field [(q, 0, 0)] x y = Inr (ex, ey) \<and>
           sqrt (ex ^ 2 + ey ^ 2) = \<bar>q\<bar> / (sqrt (x ^ 2 + y ^ 2)) ^ 2"
proof -
  have "0 \<le> epsilon" by (simp add: epsilon_def)
  with assms have "epsilon ^ 2 < (sqrt (x ^ 2 + y ^ 2)) ^ 2"
    by (rule power_strict_mono) simp
  then have far: "epsilon ^ 2 < r2 (q, 0, 0) x y" by (simp add: r2_origin)
  with epsilon_sq_pos have pos: "0 < r2 (q, 0, 0) x y" by linarith
  from far have "get_electric_field [(q, 0, 0)] x y =
      Inr (fst (coulomb (q, 0, 0) x y), snd (coulomb (q, 0, 0) x y))"
    by (simp add: get_single contribution_def)
  moreover have "sqrt ((fst (coulomb (q, 0, 0) x y)) ^ 2 + (snd (coulomb (q, 0, 0) x y)) ^ 2)
      = \<bar>q\<bar> / (sqrt (x ^ 2 + y ^ 2)) ^ 2"
    using coulomb_magnitude [OF pos] by (simp add: r2_origin)
  ultimately show ?thesis by blast
qed

lemma falloff_first:
  assumes "0 < sqrt (x ^ 2 + y ^ 2)"
  shows "\<exists>ex ey. get_electric_field_first [(q, 0, 0)] x y = Inr (ex, ey) \<and>
           sqrt (ex ^ 2 + ey ^ 2) = \<bar>q\<bar> / (sqrt (x ^ 2 + y ^ 2)) ^ 2"
proof -
  from assms have pos: "0 < r2 (q, 0, 0) x y"
    by (simp only: r2_origin real_sqrt_gt_0_iff)
  then have "get_electric_field_first [(q, 0, 0)] x y =
      Inr (fst (coulomb (q, 0, 0) x y), snd (coulomb (q, 0, 0) x y))"
    by (simp add: get_single_first contribution_first_def)
  moreover have "sqrt ((fst (coulomb (q, 0, 0) x y)) ^ 2 + (snd (coulomb (q, 0, 0) x y)) ^ 2)
      = \<bar>q\<bar> / (sqrt (x ^ 2 + y ^ 2)) ^ 2"
    using coulomb_magnitude [OF pos] by (simp add: r2_origin)
  ultimately show ?thesis by blast
qed

text \<open>
  Claim C3 (inverse-square falloff). For the single charge \<open>(q, 0, 0)\<close> and a query
  point at distance \<open>r = sqrt (x\<^sup>2 + y\<^sup>2)\<close> from the origin, with \<open>r > epsilon\<close> in
  \<^verbatim>\<open>secondTry.py\<close> and \<open>r > 0\<close> in \<^verbatim>\<open>first try.py\<close> (whose guard has no tolerance), the
  returned vector has magnitude \<open>sqrt (Ex\<^sup>2 + Ey\<^sup>2) = \<bar>q\<bar> / r\<^sup>2\<close>, in exact arithmetic.
\<close>

theorem inverse_square_falloff:
  "(epsilon < sqrt (x ^ 2 + y ^ 2) \<longrightarrow>
      (\<exists>ex ey. get_electric_field [(q, 0, 0)] x y = Inr (ex, ey) \<and>
         sqrt (ex ^ 2 + ey ^ 2) = \<bar>q\<bar> / (sqrt (x ^ 2 + y ^ 2)) ^ 2)) \<and>
   (0 < sqrt (x ^ 2 + y ^ 2) \<longrightarrow>
      (\<exists>ex ey. get_electric_field_first [(q, 0, 0)] x y = Inr (ex, ey) \<and>
         sqrt (ex ^ 2 + ey ^ 2) = \<bar>q\<bar> / (sqrt (x ^ 2 + y ^ 2)) ^ 2))"
  using falloff_second [of x y q] falloff_first [of x y q] by blast

theorem inverse_square_falloff_witness:
  "epsilon < sqrt (3 ^ 2 + 4 ^ 2) \<and>
   (\<exists>ex ey. get_electric_field [(- 2, 0, 0)] 3 4 = Inr (ex, ey) \<and>
      sqrt (ex ^ 2 + ey ^ 2) = 2 / 25) \<and>
   (0::real) < sqrt (3 ^ 2 + 4 ^ 2) \<and>
   (\<exists>ex ey. get_electric_field_first [(- 2, 0, 0)] 3 4 = Inr (ex, ey) \<and>
      sqrt (ex ^ 2 + ey ^ 2) = 2 / 25)"
proof -
  have far: "epsilon < sqrt (3 ^ 2 + 4 ^ 2)" by (simp add: sqrt_25 epsilon_def)
  have pos: "(0::real) < sqrt (3 ^ 2 + 4 ^ 2)" by (simp add: sqrt_25)
  from far pos inverse_square_falloff [of 3 4 "- 2"]
  show ?thesis by (simp add: sqrt_25)
qed

subsection \<open>The dipole of \<^verbatim>\<open>first try.py\<close>\<close>

lemma dipole_second: "get_electric_field [(1, - 2, 0), (- 1, 2, 0)] 0 0 = Inr (1 / 2, 0)"
  by (simp add: get_pair contribution_def r2_def epsilon_sq coulomb_def vadd_def)

lemma dipole_first: "get_electric_field_first [(1, - 2, 0), (- 1, 2, 0)] 0 0 = Inr (1 / 2, 0)"
  by (simp add: get_pair_first contribution_first_def r2_def coulomb_def vadd_def)

text \<open>
  Claim C4 (dipole scenario), as the code has it. For the charges
  \<open>[(1, -2, 0), (-1, 2, 0)]\<close> the field at \<open>(0, 0)\<close> is exactly \<open>(1/2, 0)\<close> in both
  scripts: the positive charge at \<open>x = -2\<close> pushes along \<open>+x\<close> with \<open>1/4\<close>, and the
  negative charge at \<open>x = 2\<close> pulls along \<open>+x\<close> with \<open>1/4\<close>. The net field points in
  the \<open>+x\<close> direction, toward the negative charge.
\<close>

theorem dipole_field:
  "get_electric_field [(1, - 2, 0), (- 1, 2, 0)] 0 0 = Inr (1 / 2, 0) \<and>
   get_electric_field_first [(1, - 2, 0), (- 1, 2, 0)] 0 0 = Inr (1 / 2, 0)"
  using dipole_second dipole_first by (rule conjI)

text \<open>The claim as it was stated asks for \<open>Ex\<close> near \<open>-1/2\<close>, a field along \<open>-x\<close>. The
  evaluator returns a value, and its first component is not negative.\<close>

theorem dipole_field_not_negative:
  "\<not> isl (get_electric_field [(1, - 2, 0), (- 1, 2, 0)] 0 0) \<and>
   \<not> fst (projr (get_electric_field [(1, - 2, 0), (- 1, 2, 0)] 0 0)) < 0 \<and>
   get_electric_field [(1, - 2, 0), (- 1, 2, 0)] 0 0 \<noteq> Inr (- 1 / 2, 0) \<and>
   \<not> isl (get_electric_field_first [(1, - 2, 0), (- 1, 2, 0)] 0 0) \<and>
   \<not> fst (projr (get_electric_field_first [(1, - 2, 0), (- 1, 2, 0)] 0 0)) < 0 \<and>
   get_electric_field_first [(1, - 2, 0), (- 1, 2, 0)] 0 0 \<noteq> Inr (- 1 / 2, 0)"
  by (simp add: dipole_second dipole_first)

subsection \<open>Point symmetry\<close>

lemma coulomb_neg:
  "coulomb (q, 0, 0) (- x) (- y) = (- fst (coulomb (q, 0, 0) x y), - snd (coulomb (q, 0, 0) x y))"
  by (simp add: coulomb_def)

lemma r2_neg: "r2 (q, 0, 0) (- x) (- y) = r2 (q, 0, 0) x y"
  by (simp add: r2_def)

lemma contribution_neg:
  "contribution (q, 0, 0) (- x) (- y) =
     (- fst (contribution (q, 0, 0) x y), - snd (contribution (q, 0, 0) x y))"
  by (simp add: contribution_def r2_neg coulomb_neg)

lemma contribution_first_neg:
  "contribution_first (q, 0, 0) (- x) (- y) =
     (- fst (contribution_first (q, 0, 0) x y), - snd (contribution_first (q, 0, 0) x y))"
  by (simp add: contribution_first_def r2_neg coulomb_neg)

lemma symmetry_any:
  "\<exists>ex ey ex' ey'. get_electric_field [(q, 0, 0)] x y = Inr (ex, ey) \<and>
     get_electric_field [(q, 0, 0)] (- x) (- y) = Inr (ex', ey') \<and>
     ex' = - ex \<and> ey' = - ey \<and> sqrt (ex' ^ 2 + ey' ^ 2) = sqrt (ex ^ 2 + ey ^ 2)"
  by (simp add: get_single contribution_neg)

lemma symmetry_any_first:
  "\<exists>ex ey ex' ey'. get_electric_field_first [(q, 0, 0)] x y = Inr (ex, ey) \<and>
     get_electric_field_first [(q, 0, 0)] (- x) (- y) = Inr (ex', ey') \<and>
     ex' = - ex \<and> ey' = - ey \<and> sqrt (ex' ^ 2 + ey' ^ 2) = sqrt (ex ^ 2 + ey ^ 2)"
  by (simp add: get_single_first contribution_first_neg)

text \<open>
  Claim C5 (sign symmetry). For the single charge \<open>(q, 0, 0)\<close> and a point \<open>(x, y)\<close>
  outside the skip tolerance, the field at \<open>(-x, -y)\<close> is the negated field at
  \<open>(x, y)\<close>, component by component, and so has the same magnitude.
\<close>

theorem sign_symmetry:
  "(epsilon ^ 2 \<le> x ^ 2 + y ^ 2 \<longrightarrow>
      (\<exists>ex ey ex' ey'. get_electric_field [(q, 0, 0)] x y = Inr (ex, ey) \<and>
         get_electric_field [(q, 0, 0)] (- x) (- y) = Inr (ex', ey') \<and>
         ex' = - ex \<and> ey' = - ey \<and> sqrt (ex' ^ 2 + ey' ^ 2) = sqrt (ex ^ 2 + ey ^ 2))) \<and>
   (x ^ 2 + y ^ 2 \<noteq> 0 \<longrightarrow>
      (\<exists>ex ey ex' ey'. get_electric_field_first [(q, 0, 0)] x y = Inr (ex, ey) \<and>
         get_electric_field_first [(q, 0, 0)] (- x) (- y) = Inr (ex', ey') \<and>
         ex' = - ex \<and> ey' = - ey \<and> sqrt (ex' ^ 2 + ey' ^ 2) = sqrt (ex ^ 2 + ey ^ 2)))"
  using symmetry_any [of q x y] symmetry_any_first [of q x y] by blast

lemma single_3_4: "get_electric_field [(5, 0, 0)] 3 4 = Inr (3 / 25, 4 / 25)"
  by (simp add: get_single contribution_def r2_def epsilon_sq coulomb_def sqrt_25)

lemma single_3_4_first: "get_electric_field_first [(5, 0, 0)] 3 4 = Inr (3 / 25, 4 / 25)"
  by (simp add: get_single_first contribution_first_def r2_def coulomb_def sqrt_25)

theorem sign_symmetry_witness:
  "epsilon ^ 2 \<le> 3 ^ 2 + 4 ^ 2 \<and>
   get_electric_field [(5, 0, 0)] 3 4 = Inr (3 / 25, 4 / 25) \<and>
   get_electric_field [(5, 0, 0)] (- 3) (- 4) = Inr (- (3 / 25), - (4 / 25)) \<and>
   (3::real) ^ 2 + 4 ^ 2 \<noteq> 0 \<and>
   get_electric_field_first [(5, 0, 0)] 3 4 = Inr (3 / 25, 4 / 25) \<and>
   get_electric_field_first [(5, 0, 0)] (- 3) (- 4) = Inr (- (3 / 25), - (4 / 25))"
proof -
  have far: "epsilon ^ 2 \<le> 3 ^ 2 + 4 ^ 2" by (simp add: epsilon_sq)
  have apart: "(3::real) ^ 2 + 4 ^ 2 \<noteq> 0" by simp
  from far sign_symmetry [of 3 4 5] obtain ex ey where
    "get_electric_field [(5, 0, 0)] 3 4 = Inr (ex, ey)"
    "get_electric_field [(5, 0, 0)] (- 3) (- 4) = Inr (- ex, - ey)"
    by blast
  then have second: "get_electric_field [(5, 0, 0)] (- 3) (- 4) = Inr (- (3 / 25), - (4 / 25))"
    by (simp add: single_3_4)
  from apart sign_symmetry [of 3 4 5] obtain fx fy where
    "get_electric_field_first [(5, 0, 0)] 3 4 = Inr (fx, fy)"
    "get_electric_field_first [(5, 0, 0)] (- 3) (- 4) = Inr (- fx, - fy)"
    by blast
  then have first: "get_electric_field_first [(5, 0, 0)] (- 3) (- 4) = Inr (- (3 / 25), - (4 / 25))"
    by (simp add: single_3_4_first)
  from far apart second first single_3_4 single_3_4_first show ?thesis by blast
qed

subsection \<open>The tolerance of \<^verbatim>\<open>secondTry.py\<close>\<close>

lemma coulomb_nonzero:
  assumes "q \<noteq> 0" and "0 < r2 (q, qx, qy) x y"
  shows "coulomb (q, qx, qy) x y \<noteq> (0, 0)"
proof
  assume "coulomb (q, qx, qy) x y = (0, 0)"
  with coulomb_magnitude [OF assms(2)] have "\<bar>q\<bar> / r2 (q, qx, qy) x y = 0" by simp
  with assms show False by simp
qed

lemma body_unchanged_iff:
  assumes "q \<noteq> 0"
  shows "(field_body (q, qx, qy) x y (E_x, E_y) = Inr (E_x, E_y)) =
           (r2 (q, qx, qy) x y < epsilon ^ 2)"
proof (cases "r2 (q, qx, qy) x y < epsilon ^ 2")
  case True
  then show ?thesis by (simp add: field_body_eq)
next
  case False
  with epsilon_sq_pos have "0 < r2 (q, qx, qy) x y" by linarith
  from coulomb_nonzero [OF assms this] have
    "fst (coulomb (q, qx, qy) x y) \<noteq> 0 \<or> snd (coulomb (q, qx, qy) x y) \<noteq> 0"
    by (simp add: prod_eq_iff)
  with False show ?thesis by (auto simp add: field_body_eq)
qed

lemma body_adds:
  assumes "\<not> r2 (q, qx, qy) x y < epsilon ^ 2"
  shows "field_body (q, qx, qy) x y (E_x, E_y) =
     Inr (E_x + q / r2 (q, qx, qy) x y * ((x - qx) / sqrt (r2 (q, qx, qy) x y)),
          E_y + q / r2 (q, qx, qy) x y * ((y - qy) / sqrt (r2 (q, qx, qy) x y)))"
  using assms by (simp add: field_body_eq) (simp add: r2_def coulomb_def)

lemma single_skipped:
  "r2 c x y < epsilon ^ 2 \<Longrightarrow> get_electric_field [c] x y = Inr (0, 0)"
  by (simp add: get_single contribution_def)

text \<open>
  Claim C8 (epsilon-ball variant). In \<^verbatim>\<open>secondTry.py\<close> the tolerance is \<open>epsilon = 1e-6\<close>.
  A charge whose squared distance \<open>r2\<close> to the query point is below \<open>epsilon\<^sup>2\<close> leaves
  the accumulator as it is, so a single such charge gives the field \<open>(0, 0)\<close>, also when
  the point is near but not at the charge. Any other charge adds its Coulomb term. For
  a charge with \<open>q \<noteq> 0\<close> the accumulator is left unchanged exactly when
  \<open>r2 < epsilon\<^sup>2\<close>.
\<close>

theorem epsilon_ball_skip:
  "epsilon = 1 / 10 ^ 6 \<and>
   (r2 (q, qx, qy) x y < epsilon ^ 2 \<longrightarrow>
      field_body (q, qx, qy) x y (E_x, E_y) = Inr (E_x, E_y) \<and>
      get_electric_field [(q, qx, qy)] x y = Inr (0, 0)) \<and>
   (\<not> r2 (q, qx, qy) x y < epsilon ^ 2 \<longrightarrow>
      field_body (q, qx, qy) x y (E_x, E_y) =
        Inr (E_x + q / r2 (q, qx, qy) x y * ((x - qx) / sqrt (r2 (q, qx, qy) x y)),
             E_y + q / r2 (q, qx, qy) x y * ((y - qy) / sqrt (r2 (q, qx, qy) x y)))) \<and>
   (q \<noteq> 0 \<longrightarrow>
      (field_body (q, qx, qy) x y (E_x, E_y) = Inr (E_x, E_y)) =
        (r2 (q, qx, qy) x y < epsilon ^ 2))"
  using body_skip [of "(q, qx, qy)" x y "(E_x, E_y)"] single_skipped [of "(q, qx, qy)" x y]
    body_adds [of q qx qy x y E_x E_y] body_unchanged_iff [of q qx qy x y E_x E_y]
  by (simp add: epsilon_def)

text \<open>The witness puts the query point at distance \<open>1e-7\<close> from a unit charge (skipped,
  although the point is not the charge's position) and at distance \<open>5\<close> (not skipped).\<close>

theorem epsilon_ball_skip_witness:
  "r2 (1, 0, 0) (1 / 10 ^ 7) 0 < epsilon ^ 2 \<and> r2 (1, 0, 0) (1 / 10 ^ 7) 0 \<noteq> 0 \<and>
   field_body (1, 0, 0) (1 / 10 ^ 7) 0 (5, 7) = Inr (5, 7) \<and>
   get_electric_field [(1, 0, 0)] (1 / 10 ^ 7) 0 = Inr (0, 0) \<and>
   \<not> r2 (1, 0, 0) 3 4 < epsilon ^ 2 \<and>
   field_body (1, 0, 0) 3 4 (5, 7) = Inr (5 + 3 / 125, 7 + 4 / 125) \<and>
   (1::real) \<noteq> 0 \<and>
   (field_body (1, 0, 0) 3 4 (5, 7) = Inr (5, 7)) = (r2 (1, 0, 0) 3 4 < epsilon ^ 2)"
proof -
  have near: "r2 (1, 0, 0) (1 / 10 ^ 7) 0 < epsilon ^ 2"
    by (simp add: r2_def epsilon_sq power_divide)
  have off: "r2 (1, 0, 0) (1 / 10 ^ 7) 0 \<noteq> 0"
    by (simp add: r2_def)
  have dist: "r2 (1, 0, 0) 3 4 = 25" by (simp add: r2_def)
  have far: "\<not> r2 (1, 0, 0) 3 4 < epsilon ^ 2"
    by (simp add: dist epsilon_sq)
  have one: "(1::real) \<noteq> 0" by simp
  from near epsilon_ball_skip [of 1 0 0 "1 / 10 ^ 7" 0 5 7] have skipped:
    "field_body (1, 0, 0) (1 / 10 ^ 7) 0 (5, 7) = Inr (5, 7)"
    "get_electric_field [(1, 0, 0)] (1 / 10 ^ 7) 0 = Inr (0, 0)"
    by blast+
  from far epsilon_ball_skip [of 1 0 0 3 4 5 7] have
    "field_body (1, 0, 0) 3 4 (5, 7) =
       Inr (5 + 1 / r2 (1, 0, 0) 3 4 * ((3 - 0) / sqrt (r2 (1, 0, 0) 3 4)),
            7 + 1 / r2 (1, 0, 0) 3 4 * ((4 - 0) / sqrt (r2 (1, 0, 0) 3 4)))"
    by blast
  then have added: "field_body (1, 0, 0) 3 4 (5, 7) = Inr (5 + 3 / 125, 7 + 4 / 125)"
    by (simp add: dist sqrt_25)
  from one epsilon_ball_skip [of 1 0 0 3 4 5 7] have iff:
    "(field_body (1, 0, 0) 3 4 (5, 7) = Inr (5, 7)) = (r2 (1, 0, 0) 3 4 < epsilon ^ 2)"
    by blast
  from near off skipped far added one iff show ?thesis by blast
qed

text \<open>At the same near point \<^verbatim>\<open>first try.py\<close> does not skip the charge.\<close>

lemma first_try_near_point:
  "get_electric_field_first [(1, 0, 0)] (1 / 10 ^ 7) 0 = Inr (10 ^ 14, 0)"
proof -
  have root: "sqrt (1 / 100000000000000) = 1 / 10000000"
    by (rule real_sqrt_unique) (simp_all add: power_divide)
  show ?thesis
    by (simp add: get_single_first contribution_first_def r2_def coulomb_def power_divide root)
qed

subsection \<open>A charge of magnitude zero\<close>

lemma contribution_zero_charge: "contribution (0, px, py) x y = (0, 0)"
  by (simp add: contribution_def coulomb_def)

lemma contribution_first_zero_charge: "contribution_first (0, px, py) x y = (0, 0)"
  by (simp add: contribution_first_def coulomb_def)

text \<open>
  Claim C9 (zero charge is an identity). Appending a charge with \<open>q = 0\<close> at any
  position to any charge list leaves the field unchanged at every query point, in both
  scripts; alone, such a charge gives the field \<open>(0, 0)\<close>.
\<close>

theorem zero_charge_identity:
  "get_electric_field (charges @ [(0, px, py)]) x y = get_electric_field charges x y \<and>
   get_electric_field_first (charges @ [(0, px, py)]) x y =
     get_electric_field_first charges x y \<and>
   get_electric_field [(0, px, py)] x y = Inr (0, 0) \<and>
   get_electric_field_first [(0, px, py)] x y = Inr (0, 0)"
  by (simp add: get_electric_field_def get_electric_field_first_def field_loop_eq
      field_loop_first_eq contribution_zero_charge contribution_first_zero_charge
      vadd_zero_right)

theorem zero_charge_identity_witness:
  "get_electric_field ([(5, 0, 0)] @ [(0, 1, 1)]) 3 4 = Inr (3 / 25, 4 / 25) \<and>
   get_electric_field_first ([(5, 0, 0)] @ [(0, 1, 1)]) 3 4 = Inr (3 / 25, 4 / 25)"
  using zero_charge_identity [of "[(5, 0, 0)]" 1 1 3 4] single_3_4 single_3_4_first
  by simp

subsection \<open>Radial direction\<close>

lemma powr_three_halves:
  fixes d :: real
  assumes "0 < d"
  shows "d powr (3 / 2) = d * sqrt d"
proof -
  have "d powr (3 / 2) = d powr (1 + 1 / 2)" by simp
  also have "\<dots> = d powr 1 * d powr (1 / 2)" by (rule powr_add)
  also have "\<dots> = d * sqrt d" using assms by (simp add: powr_half_sqrt)
  finally show ?thesis .
qed

lemma coulomb_radial:
  assumes "0 < r2 (q, qx, qy) x y"
  shows "coulomb (q, qx, qy) x y =
     (q / (r2 (q, qx, qy) x y powr (3 / 2)) * (x - qx),
      q / (r2 (q, qx, qy) x y powr (3 / 2)) * (y - qy))"
  using assms by (simp add: powr_three_halves) (simp add: coulomb_def r2_def)

lemma radial_second:
  assumes "epsilon ^ 2 \<le> r2 (q, qx, qy) x y"
  shows "get_electric_field [(q, qx, qy)] x y =
     Inr (q / (r2 (q, qx, qy) x y powr (3 / 2)) * (x - qx),
          q / (r2 (q, qx, qy) x y powr (3 / 2)) * (y - qy))"
proof -
  from assms epsilon_sq_pos have pos: "0 < r2 (q, qx, qy) x y" by linarith
  from assms have "get_electric_field [(q, qx, qy)] x y = Inr (coulomb (q, qx, qy) x y)"
    by (simp add: get_single contribution_def)
  then show ?thesis by (simp only: coulomb_radial [OF pos])
qed

lemma radial_first:
  assumes "r2 (q, qx, qy) x y \<noteq> 0"
  shows "get_electric_field_first [(q, qx, qy)] x y =
     Inr (q / (r2 (q, qx, qy) x y powr (3 / 2)) * (x - qx),
          q / (r2 (q, qx, qy) x y powr (3 / 2)) * (y - qy))"
proof -
  from assms r2_nonneg [of "(q, qx, qy)" x y] have pos: "0 < r2 (q, qx, qy) x y" by linarith
  from assms have "get_electric_field_first [(q, qx, qy)] x y = Inr (coulomb (q, qx, qy) x y)"
    by (simp add: get_single_first contribution_first_def)
  then show ?thesis by (simp only: coulomb_radial [OF pos])
qed

lemma radial_sign:
  fixes d q :: real
  assumes "d \<noteq> 0"
  shows "(0 < q \<longrightarrow> 0 < q / (d powr (3 / 2))) \<and> (q < 0 \<longrightarrow> q / (d powr (3 / 2)) < 0)"
proof -
  from assms have "0 < d powr (3 / 2)" by simp
  then show ?thesis by (simp add: divide_neg_pos)
qed

text \<open>
  Claim C10 (radial direction). For the single charge \<open>(q, qx, qy)\<close> and a query point
  whose squared distance \<open>r2\<close> from the charge is at least the skip tolerance, the field
  is the displacement \<open>(x - qx, y - qy)\<close> scaled by \<open>q / r2 powr (3/2)\<close>; the scalar is
  positive when \<open>q > 0\<close> and negative when \<open>q < 0\<close>.
\<close>

theorem radial_direction:
  "(epsilon ^ 2 \<le> r2 (q, qx, qy) x y \<longrightarrow>
      get_electric_field [(q, qx, qy)] x y =
        Inr (q / (r2 (q, qx, qy) x y powr (3 / 2)) * (x - qx),
             q / (r2 (q, qx, qy) x y powr (3 / 2)) * (y - qy))) \<and>
   (r2 (q, qx, qy) x y \<noteq> 0 \<longrightarrow>
      get_electric_field_first [(q, qx, qy)] x y =
        Inr (q / (r2 (q, qx, qy) x y powr (3 / 2)) * (x - qx),
             q / (r2 (q, qx, qy) x y powr (3 / 2)) * (y - qy))) \<and>
   (r2 (q, qx, qy) x y \<noteq> 0 \<longrightarrow>
      (0 < q \<longrightarrow> 0 < q / (r2 (q, qx, qy) x y powr (3 / 2))) \<and>
      (q < 0 \<longrightarrow> q / (r2 (q, qx, qy) x y powr (3 / 2)) < 0))"
  using radial_second [of q qx qy x y] radial_first [of q qx qy x y]
    radial_sign [of "r2 (q, qx, qy) x y" q]
  by blast

theorem radial_direction_witness:
  "epsilon ^ 2 \<le> r2 (- 2, 1, 1) 4 5 \<and>
   get_electric_field [(- 2, 1, 1)] 4 5 =
     Inr (- 2 / (r2 (- 2, 1, 1) 4 5 powr (3 / 2)) * (4 - 1),
          - 2 / (r2 (- 2, 1, 1) 4 5 powr (3 / 2)) * (5 - 1)) \<and>
   r2 (- 2, 1, 1) 4 5 \<noteq> 0 \<and>
   get_electric_field_first [(- 2, 1, 1)] 4 5 =
     Inr (- 2 / (r2 (- 2, 1, 1) 4 5 powr (3 / 2)) * (4 - 1),
          - 2 / (r2 (- 2, 1, 1) 4 5 powr (3 / 2)) * (5 - 1)) \<and>
   (- 2::real) < 0 \<and> - 2 / (r2 (- 2, 1, 1) 4 5 powr (3 / 2)) < 0"
proof -
  have dist: "r2 (- 2, 1, 1) 4 5 = 25" by (simp add: r2_def)
  have far: "epsilon ^ 2 \<le> r2 (- 2, 1, 1) 4 5" by (simp add: dist epsilon_sq)
  have apart: "r2 (- 2, 1, 1) 4 5 \<noteq> 0" by (simp add: dist)
  have neg: "(- 2::real) < 0" by simp
  from far apart neg radial_direction [of "- 2" 1 1 4 5]
  show ?thesis by blast
qed

section \<open>Properties of the grid sampler\<close>

subsection \<open>Shapes are kept and no index leaves the arrays\<close>

lemma filled_zeros: "P 0 \<Longrightarrow> filled P m n (np_zeros (m, n))"
  by (simp add: filled_def np_zeros_def list_all_iff)

lemma list_all_update: "list_all Q xs \<Longrightarrow> Q v \<Longrightarrow> list_all Q (xs[i := v])"
  by (induction xs arbitrary: i) (auto split: nat.splits)

lemma filled_setitem:
  assumes "filled P m n A" "i < m" "j < n" "P v"
  shows "\<exists>A'. setitem A i j v = Inr A' \<and> filled P m n A'"
proof -
  from assms(1) have sh: "shape A = (m, n)" and len: "length (data A) = m"
    and all: "list_all (\<lambda>r. length r = n \<and> list_all P r) (data A)"
    by (simp_all add: filled_def)
  from all len assms(2) have row: "length (data A ! i) = n" "list_all P (data A ! i)"
    by (simp_all add: list_all_length)
  from row assms(4) have "length ((data A ! i)[j := v]) = n \<and> list_all P ((data A ! i)[j := v])"
    by (simp add: list_all_update)
  with all have "list_all (\<lambda>r. length r = n \<and> list_all P r) ((data A)[i := (data A ! i)[j := v]])"
    by (rule list_all_update)
  with sh len assms(2,3) show ?thesis
    by (simp add: setitem_def filled_def)
qed

lemma getitem_in_range:
  "shape A = (m, n) \<Longrightarrow> i < m \<Longrightarrow> j < n \<Longrightarrow> \<exists>v. getitem A i j = Inr v"
  by (simp add: getitem_def)

lemma inner_loop_filled:
  assumes "yields P field charges" "shape X = (m, n)" "shape Y = (m, n)" "i < m"
  shows "list_all (\<lambda>j. j < n) js \<Longrightarrow> filled P m n E_x \<Longrightarrow> filled P m n E_y \<Longrightarrow>
    \<exists>E_x' E_y'. inner_loop field charges X Y i js (E_x, E_y) = Inr (E_x', E_y') \<and>
       filled P m n E_x' \<and> filled P m n E_y'"
proof (induction js arbitrary: E_x E_y)
  case Nil
  then show ?case by simp
next
  case (Cons j js)
  from Cons.prems(1) have j: "j < n" and js: "list_all (\<lambda>j. j < n) js" by simp_all
  from getitem_in_range [OF assms(2) assms(4) j] obtain xv where xv: "getitem X i j = Inr xv" ..
  from getitem_in_range [OF assms(3) assms(4) j] obtain yv where yv: "getitem Y i j = Inr yv" ..
  from assms(1) obtain ex ey where f: "field charges xv yv = Inr (ex, ey)" and p: "P ex" "P ey"
    unfolding yields_def by blast
  from filled_setitem [OF Cons.prems(2) assms(4) j p(1)] obtain A where
    a: "setitem E_x i j ex = Inr A" "filled P m n A" by blast
  from filled_setitem [OF Cons.prems(3) assms(4) j p(2)] obtain B where
    b: "setitem E_y i j ey = Inr B" "filled P m n B" by blast
  from Cons.IH [OF js a(2) b(2)] show ?case
    by (simp add: xv yv f a(1) b(1))
qed

lemma outer_loop_filled:
  assumes "yields P field charges" "shape X = (m, n)" "shape Y = (m, n)"
  shows "list_all (\<lambda>i. i < m) is \<Longrightarrow> filled P m n E_x \<Longrightarrow> filled P m n E_y \<Longrightarrow>
    \<exists>E_x' E_y'. outer_loop field charges X Y is (E_x, E_y) = Inr (E_x', E_y') \<and>
       filled P m n E_x' \<and> filled P m n E_y'"
proof (induction "is" arbitrary: E_x E_y)
  case Nil
  then show ?case by simp
next
  case (Cons i "is")
  from Cons.prems(1) have i: "i < m" and rest: "list_all (\<lambda>i. i < m) is" by simp_all
  have cols: "list_all (\<lambda>j. j < n) [0..<snd (shape Y)]"
    by (simp add: assms(3) list_all_iff)
  from inner_loop_filled [OF assms i cols Cons.prems(2,3)] obtain A B where
    ab: "inner_loop field charges X Y i [0..<snd (shape Y)] (E_x, E_y) = Inr (A, B)"
      "filled P m n A" "filled P m n B" by blast
  from Cons.IH [OF rest ab(2,3)] show ?case
    by (simp add: ab(1))
qed

lemma linspace_length:
  "0 \<le> num \<Longrightarrow> \<exists>x. linspace start stop num = Inr x \<and> length x = nat num"
  by (simp add: linspace_def Let_def)

lemma sample_field_filled:
  assumes "yields P field charges" "P 0" "0 \<le> grid_density"
  shows "\<exists>E_x E_y. sample_field field charges x_range y_range grid_density = Inr (E_x, E_y) \<and>
     filled P (nat grid_density) (nat grid_density) E_x \<and>
     filled P (nat grid_density) (nat grid_density) E_y"
proof -
  let ?n = "nat grid_density"
  from linspace_length [OF assms(3)] obtain x where
    x: "linspace (fst x_range) (snd x_range) grid_density = Inr x" "length x = ?n" by blast
  from linspace_length [OF assms(3)] obtain y where
    y: "linspace (fst y_range) (snd y_range) grid_density = Inr y" "length y = ?n" by blast
  obtain X Y where m: "meshgrid x y = (X, Y)" by (cases "meshgrid x y")
  with x(2) y(2) have sh: "shape X = (?n, ?n)" "shape Y = (?n, ?n)"
    by (auto simp add: meshgrid_def)
  have rows: "list_all (\<lambda>i. i < ?n) [0..<fst (shape X)]"
    by (simp add: sh list_all_iff)
  have zeros: "filled P ?n ?n (np_zeros (?n, ?n))"
    using assms(2) by (rule filled_zeros)
  from outer_loop_filled [OF assms(1) sh rows zeros zeros]
  show ?thesis
    by (simp add: sample_field_def x(1) y(1) m sh)
qed

lemma linspace_nth:
  assumes "2 \<le> num" "i < nat num"
  shows "\<exists>x. linspace start stop num = Inr x \<and>
     x ! i = start + real i * ((stop - start) / real_of_int (num - 1))"
proof -
  let ?n = "nat num"
  let ?step = "(stop - start) / real_of_int (num - 1)"
  let ?y = "map (\<lambda>v. v + start)
     (if ?step = 0 then map (\<lambda>v. v / real_of_int (num - 1) * (stop - start)) (map real [0..<?n])
      else map (\<lambda>v. v * ?step) (map real [0..<?n]))"
  from assms(1) have lin: "linspace start stop num = Inr (?y[?n - 1 := stop])"
    by (simp add: linspace_def Let_def)
  have len: "length ?y = ?n" by simp
  have inner: "?y ! i = start + real i * ?step"
    using assms(2) by (cases "?step = 0") auto
  show ?thesis
  proof (cases "i = ?n - 1")
    case True
    from assms(1) have "real i = real_of_int (num - 1)" unfolding True by simp
    moreover from assms(1) have "real_of_int (num - 1) \<noteq> 0" by simp
    ultimately have "start + real i * ?step = stop" by simp
    with True len assms(2) lin show ?thesis by simp
  next
    case False
    with inner lin show ?thesis by simp
  qed
qed

lemma linspace_samples:
  assumes "2 \<le> n"
  shows "\<exists>x. linspace start stop (int n) = Inr x \<and> length x = n \<and>
     x ! 0 = start \<and> x ! (n - 1) = stop \<and>
     (\<forall>i<n. x ! i = start + real i * ((stop - start) / real (n - 1)))"
proof -
  from assms have num: "2 \<le> int n" "0 \<le> int n" by simp_all
  from linspace_length [OF num(2)] obtain x where
    x: "linspace start stop (int n) = Inr x" "length x = n" by auto
  have step: "real_of_int (int n - 1) = real (n - 1)" using assms by simp
  have nth: "x ! i = start + real i * ((stop - start) / real (n - 1))" if "i < n" for i
  proof -
    from that have "i < nat (int n)" by simp
    from linspace_nth [OF num(1) this, of start stop] obtain x' where
      "linspace start stop (int n) = Inr x'"
      "x' ! i = start + real i * ((stop - start) / real_of_int (int n - 1))"
      by blast
    with x(1) have "x ! i = start + real i * ((stop - start) / real_of_int (int n - 1))"
      by simp
    then show ?thesis unfolding step .
  qed
  from assms have "x ! 0 = start" using nth [of 0] by simp
  moreover from assms have "x ! (n - 1) = stop" using nth [of "n - 1"] by simp
  ultimately show ?thesis using x nth by blast
qed

lemma filled_shape:
  assumes "filled P m n A"
  shows "shape A = (m, n) \<and> length (data A) = m \<and> (\<forall>r\<in>set (data A). length r = n)"
  using assms by (simp add: filled_def list_all_iff)

lemma all_zero_row: "length r = n \<Longrightarrow> list_all (\<lambda>v. v = 0) r \<Longrightarrow> r = replicate n (0::real)"
  by (induction r arbitrary: n) auto

lemma all_rows: "length rs = m \<Longrightarrow> list_all (\<lambda>r. r = z) rs \<Longrightarrow> rs = replicate m z"
  by (induction rs arbitrary: m) auto

lemma filled_zero:
  assumes "filled (\<lambda>v. v = 0) m n A"
  shows "A = \<lparr>shape = (m, n), data = replicate m (replicate n 0)\<rparr>"
proof -
  from assms have sh: "shape A = (m, n)" and len: "length (data A) = m"
    and all: "list_all (\<lambda>r. length r = n \<and> list_all (\<lambda>v. v = 0) r) (data A)"
    by (simp_all add: filled_def)
  from all have "list_all (\<lambda>r. r = replicate n 0) (data A)"
    by (simp add: list_all_iff all_zero_row)
  with len have "data A = replicate m (replicate n 0)" by (rule all_rows)
  with sh show ?thesis by simp
qed

lemma yields_any: "yields (\<lambda>v. True) get_electric_field charges"
  using get_total by (simp add: yields_def)

lemma yields_any_first: "yields (\<lambda>v. True) get_electric_field_first charges"
  using get_total_first by (simp add: yields_def)

lemma yields_zero: "yields (\<lambda>v. v = 0) get_electric_field []"
  by (simp add: yields_def get_electric_field_def)

lemma yields_zero_first: "yields (\<lambda>v. v = 0) get_electric_field_first []"
  by (simp add: yields_def get_electric_field_first_def)

lemma sample_shape:
  assumes "yields (\<lambda>v. True) field charges"
  shows "\<exists>E_x E_y. sample_field field charges x_range y_range (int n) = Inr (E_x, E_y) \<and>
     shape E_x = (n, n) \<and> shape E_y = (n, n) \<and>
     length (data E_x) = n \<and> length (data E_y) = n \<and>
     (\<forall>r\<in>set (data E_x). length r = n) \<and> (\<forall>r\<in>set (data E_y). length r = n)"
proof -
  from sample_field_filled [OF assms, of "int n" x_range y_range] obtain A B where
    ab: "sample_field field charges x_range y_range (int n) = Inr (A, B)"
      "filled (\<lambda>v. True) n n A" "filled (\<lambda>v. True) n n B"
    by auto
  from filled_shape [OF ab(2)] filled_shape [OF ab(3)] ab(1) show ?thesis by blast
qed

lemma sample_zero:
  assumes "yields (\<lambda>v. v = 0) field charges"
  shows "sample_field field charges x_range y_range (int n) =
     Inr (\<lparr>shape = (n, n), data = replicate n (replicate n 0)\<rparr>,
          \<lparr>shape = (n, n), data = replicate n (replicate n 0)\<rparr>)"
proof -
  from sample_field_filled [OF assms, of "int n" x_range y_range] obtain A B where
    ab: "sample_field field charges x_range y_range (int n) = Inr (A, B)"
      "filled (\<lambda>v. v = 0) n n A" "filled (\<lambda>v. v = 0) n n B"
    by auto
  from filled_zero [OF ab(2)] filled_zero [OF ab(3)] ab(1) show ?thesis by simp
qed

subsection \<open>Every cell holds the field at its grid node\<close>

lemma setitem_cell:
  assumes "filled P m n A" "i < m" "j < n" "setitem A i j v = Inr A'"
  shows "data A' ! i' ! j' = (if i' = i \<and> j' = j then v else data A ! i' ! j')"
proof -
  from assms(1) have sh: "shape A = (m, n)" and len: "length (data A) = m"
    and all: "list_all (\<lambda>r. length r = n \<and> list_all P r) (data A)"
    by (simp_all add: filled_def)
  from all len assms(2) have row: "length (data A ! i) = n"
    by (simp add: list_all_length)
  from assms(2-4) sh have new: "data A' = (data A)[i := (data A ! i)[j := v]]"
    by (auto simp add: setitem_def)
  show ?thesis
  proof (cases "i' = i")
    case True
    with len assms(2) have "data A' ! i' = (data A ! i)[j := v]" by (simp add: new)
    with True row assms(3) show ?thesis by (simp add: nth_list_update)
  next
    case False
    then show ?thesis by (simp add: new)
  qed
qed

lemma getitem_value:
  "shape A = (m, n) \<Longrightarrow> i < m \<Longrightarrow> j < n \<Longrightarrow> getitem A i j = Inr (data A ! i ! j)"
  by (simp add: getitem_def)

lemma inner_loop_cells:
  assumes "yields P field charges" "shape X = (m, n)" "shape Y = (m, n)" "i < m"
  shows "list_all (\<lambda>j. j < n) js \<Longrightarrow> distinct js \<Longrightarrow>
    filled P m n E_x \<Longrightarrow> filled P m n E_y \<Longrightarrow>
    inner_loop field charges X Y i js (E_x, E_y) = Inr (A, B) \<Longrightarrow>
    (\<forall>j\<in>set js. field charges (data X ! i ! j) (data Y ! i ! j) =
        Inr (data A ! i ! j, data B ! i ! j)) \<and>
    (\<forall>i' j'. \<not> (i' = i \<and> j' \<in> set js) \<longrightarrow>
        data A ! i' ! j' = data E_x ! i' ! j' \<and> data B ! i' ! j' = data E_y ! i' ! j')"
proof (induction js arbitrary: E_x E_y)
  case Nil
  then show ?case by simp
next
  case (Cons j js)
  from Cons.prems(1) have j: "j < n" and js: "list_all (\<lambda>j. j < n) js" by simp_all
  from Cons.prems(2) have fresh: "j \<notin> set js" and dist: "distinct js" by simp_all
  note xv = getitem_value [OF assms(2) assms(4) j]
  note yv = getitem_value [OF assms(3) assms(4) j]
  from assms(1) obtain ex ey where
    f: "field charges (data X ! i ! j) (data Y ! i ! j) = Inr (ex, ey)" and p: "P ex" "P ey"
    unfolding yields_def by blast
  from filled_setitem [OF Cons.prems(3) assms(4) j p(1)] obtain A1 where
    a: "setitem E_x i j ex = Inr A1" "filled P m n A1" by blast
  from filled_setitem [OF Cons.prems(4) assms(4) j p(2)] obtain B1 where
    b: "setitem E_y i j ey = Inr B1" "filled P m n B1" by blast
  from Cons.prems(5) have rest: "inner_loop field charges X Y i js (A1, B1) = Inr (A, B)"
    by (simp add: xv yv f a(1) b(1))
  note ih = Cons.IH [OF js dist a(2) b(2) rest]
  note ca = setitem_cell [OF Cons.prems(3) assms(4) j a(1)]
  note cb = setitem_cell [OF Cons.prems(4) assms(4) j b(1)]
  from ih fresh have head: "data A ! i ! j = ex" "data B ! i ! j = ey"
    by (simp_all add: ca cb)
  show ?case
  proof (intro conjI ballI allI impI)
    fix k assume "k \<in> set (j # js)"
    then show "field charges (data X ! i ! k) (data Y ! i ! k) =
        Inr (data A ! i ! k, data B ! i ! k)"
      using ih f head by auto
  next
    fix i' j' assume out: "\<not> (i' = i \<and> j' \<in> set (j # js))"
    then have o1: "\<not> (i' = i \<and> j' \<in> set js)" and o2: "\<not> (i' = i \<and> j' = j)" by auto
    from ih o1 have "data A ! i' ! j' = data A1 ! i' ! j'" by blast
    also from o2 have "\<dots> = data E_x ! i' ! j'" by (auto simp add: ca)
    finally show "data A ! i' ! j' = data E_x ! i' ! j'" .
  next
    fix i' j' assume out: "\<not> (i' = i \<and> j' \<in> set (j # js))"
    then have o1: "\<not> (i' = i \<and> j' \<in> set js)" and o2: "\<not> (i' = i \<and> j' = j)" by auto
    from ih o1 have "data B ! i' ! j' = data B1 ! i' ! j'" by blast
    also from o2 have "\<dots> = data E_y ! i' ! j'" by (auto simp add: cb)
    finally show "data B ! i' ! j' = data E_y ! i' ! j'" .
  qed
qed

lemma outer_loop_cells:
  assumes "yields P field charges" "shape X = (m, n)" "shape Y = (m, n)"
  shows "list_all (\<lambda>i. i < m) is \<Longrightarrow> distinct is \<Longrightarrow>
    filled P m n E_x \<Longrightarrow> filled P m n E_y \<Longrightarrow>
    outer_loop field charges X Y is (E_x, E_y) = Inr (A, B) \<Longrightarrow>
    (\<forall>i\<in>set is. \<forall>j<n. field charges (data X ! i ! j) (data Y ! i ! j) =
        Inr (data A ! i ! j, data B ! i ! j)) \<and>
    (\<forall>i' j'. i' \<notin> set is \<longrightarrow>
        data A ! i' ! j' = data E_x ! i' ! j' \<and> data B ! i' ! j' = data E_y ! i' ! j')"
proof (induction "is" arbitrary: E_x E_y)
  case Nil
  then show ?case by simp
next
  case (Cons i "is")
  from Cons.prems(1) have i: "i < m" and rest: "list_all (\<lambda>i. i < m) is" by simp_all
  from Cons.prems(2) have fresh: "i \<notin> set is" and dist: "distinct is" by simp_all
  have cols: "list_all (\<lambda>j. j < n) [0..<snd (shape Y)]"
    by (simp add: assms(3) list_all_iff)
  have dcols: "distinct [0..<snd (shape Y)]" by simp
  from inner_loop_filled [OF assms i cols Cons.prems(3,4)] obtain A1 B1 where
    ab: "inner_loop field charges X Y i [0..<snd (shape Y)] (E_x, E_y) = Inr (A1, B1)"
      "filled P m n A1" "filled P m n B1" by blast
  note row = inner_loop_cells [OF assms i cols dcols Cons.prems(3,4) ab(1)]
  from Cons.prems(5) have tail: "outer_loop field charges X Y is (A1, B1) = Inr (A, B)"
    by (simp add: ab(1))
  note ih = Cons.IH [OF rest dist ab(2,3) tail]
  show ?case
  proof (intro conjI ballI allI impI)
    fix k j assume k: "k \<in> set (i # is)" and jn: "j < n"
    show "field charges (data X ! k ! j) (data Y ! k ! j) = Inr (data A ! k ! j, data B ! k ! j)"
    proof (cases "k \<in> set is")
      case True
      with ih jn show ?thesis by blast
    next
      case False
      with k have ki: "k = i" by simp
      from False ih have "data A ! k ! j = data A1 ! k ! j" "data B ! k ! j = data B1 ! k ! j"
        by blast+
      moreover from row jn have "field charges (data X ! i ! j) (data Y ! i ! j) =
          Inr (data A1 ! i ! j, data B1 ! i ! j)"
        by (simp add: assms(3))
      ultimately show ?thesis by (simp add: ki)
    qed
  next
    fix i' j' assume out: "i' \<notin> set (i # is)"
    then have "i' \<notin> set is" "i' \<noteq> i" by auto
    with ih row show "data A ! i' ! j' = data E_x ! i' ! j'" by simp
  next
    fix i' j' assume out: "i' \<notin> set (i # is)"
    then have "i' \<notin> set is" "i' \<noteq> i" by auto
    with ih row show "data B ! i' ! j' = data E_y ! i' ! j'" by simp
  qed
qed

lemma meshgrid_cells:
  assumes "meshgrid x y = (X, Y)" "i < length y" "j < length x"
  shows "data X ! i ! j = x ! j" and "data Y ! i ! j = y ! i"
  using assms by (auto simp add: meshgrid_def)

lemma sample_cells:
  assumes "yields P field charges" "P 0"
    and "linspace (fst x_range) (snd x_range) (int n) = Inr x"
    and "linspace (fst y_range) (snd y_range) (int n) = Inr y"
  shows "\<exists>E_x E_y. sample_field field charges x_range y_range (int n) = Inr (E_x, E_y) \<and>
     filled P n n E_x \<and> filled P n n E_y \<and>
     (\<forall>i<n. \<forall>j<n. field charges (x ! j) (y ! i) = Inr (data E_x ! i ! j, data E_y ! i ! j))"
proof -
  have num: "0 \<le> int n" by simp
  from linspace_length [OF num, of "fst x_range" "snd x_range"] assms(3)
  have lx: "length x = n" by simp
  from linspace_length [OF num, of "fst y_range" "snd y_range"] assms(4)
  have ly: "length y = n" by simp
  obtain X Y where m: "meshgrid x y = (X, Y)" by (cases "meshgrid x y")
  with lx ly have sh: "shape X = (n, n)" "shape Y = (n, n)"
    by (auto simp add: meshgrid_def)
  have rows: "list_all (\<lambda>i. i < n) [0..<fst (shape X)]"
    by (simp add: sh list_all_iff)
  have drows: "distinct [0..<fst (shape X)]" by simp
  have zeros: "filled P n n (np_zeros (n, n))"
    using assms(2) by (rule filled_zeros)
  from outer_loop_filled [OF assms(1) sh rows zeros zeros] obtain A B where
    ab: "outer_loop field charges X Y [0..<fst (shape X)] (np_zeros (n, n), np_zeros (n, n)) =
        Inr (A, B)" "filled P n n A" "filled P n n B"
    by blast
  from outer_loop_cells [OF assms(1) sh rows drows zeros zeros ab(1)]
  have "\<forall>i<n. \<forall>j<n. field charges (data X ! i ! j) (data Y ! i ! j) =
      Inr (data A ! i ! j, data B ! i ! j)"
    by (simp add: sh)
  then have "\<forall>i<n. \<forall>j<n. field charges (x ! j) (y ! i) = Inr (data A ! i ! j, data B ! i ! j)"
    using meshgrid_cells [OF m] lx ly by simp
  moreover have "sample_field field charges x_range y_range (int n) = Inr (A, B)"
    using ab(1) by (simp add: sample_field_def assms(3,4) m sh)
  ultimately show ?thesis using ab(2,3) by blast
qed


lemma sample_nodes:
  assumes "yields (\<lambda>v. True) field charges" "2 \<le> n"
  shows "\<exists>x y E_x E_y.
     linspace (fst x_range) (snd x_range) (int n) = Inr x \<and>
     linspace (fst y_range) (snd y_range) (int n) = Inr y \<and>
     length x = n \<and> length y = n \<and>
     x ! 0 = fst x_range \<and> x ! (n - 1) = snd x_range \<and>
     y ! 0 = fst y_range \<and> y ! (n - 1) = snd y_range \<and>
     (\<forall>j<n. x ! j = fst x_range + real j * ((snd x_range - fst x_range) / real (n - 1))) \<and>
     (\<forall>i<n. y ! i = fst y_range + real i * ((snd y_range - fst y_range) / real (n - 1))) \<and>
     sample_field field charges x_range y_range (int n) = Inr (E_x, E_y) \<and>
     shape E_x = (n, n) \<and> shape E_y = (n, n) \<and>
     length (data E_x) = n \<and> length (data E_y) = n \<and>
     (\<forall>r\<in>set (data E_x). length r = n) \<and> (\<forall>r\<in>set (data E_y). length r = n) \<and>
     (\<forall>i<n. \<forall>j<n. field charges (x ! j) (y ! i) = Inr (data E_x ! i ! j, data E_y ! i ! j))"
proof -
  from linspace_samples [OF assms(2), of "fst x_range" "snd x_range"] obtain x where
    x: "linspace (fst x_range) (snd x_range) (int n) = Inr x" "length x = n"
      "x ! 0 = fst x_range" "x ! (n - 1) = snd x_range"
      "\<forall>j<n. x ! j = fst x_range + real j * ((snd x_range - fst x_range) / real (n - 1))"
    by blast
  from linspace_samples [OF assms(2), of "fst y_range" "snd y_range"] obtain y where
    y: "linspace (fst y_range) (snd y_range) (int n) = Inr y" "length y = n"
      "y ! 0 = fst y_range" "y ! (n - 1) = snd y_range"
      "\<forall>i<n. y ! i = fst y_range + real i * ((snd y_range - fst y_range) / real (n - 1))"
    by blast
  from sample_cells [OF assms(1) TrueI x(1) y(1)] obtain A B where
    ab: "sample_field field charges x_range y_range (int n) = Inr (A, B)"
      "filled (\<lambda>v. True) n n A" "filled (\<lambda>v. True) n n B"
      "\<forall>i<n. \<forall>j<n. field charges (x ! j) (y ! i) = Inr (data A ! i ! j, data B ! i ! j)"
    by blast
  from filled_shape [OF ab(2)] filled_shape [OF ab(3)] x y ab(1,4) show ?thesis
    by blast
qed

lemma unit_charge_second:
  "get_electric_field [(1, 0, 0)] 0 0 = Inr (0, 0)"
  "get_electric_field [(1, 0, 0)] 1 0 = Inr (1, 0)"
  by (simp_all add: get_single contribution_def r2_def coulomb_def epsilon_sq)

subsection \<open>A grid computed in full\<close>

lemma linspace_three: "linspace (- 1) 1 3 = Inr [- 1, 0, 1]"
  by (simp add: linspace_def Let_def upt_rec numeral_nat)

lemma unit_charge_axes:
  "get_electric_field_first [(1, 0, 0)] 0 0 = Inr (0, 0)"
  "get_electric_field_first [(1, 0, 0)] 1 0 = Inr (1, 0)"
  "get_electric_field_first [(1, 0, 0)] (- 1) 0 = Inr (- 1, 0)"
  "get_electric_field_first [(1, 0, 0)] 0 1 = Inr (0, 1)"
  "get_electric_field_first [(1, 0, 0)] 0 (- 1) = Inr (0, - 1)"
  by (simp_all add: get_single_first contribution_first_def r2_def coulomb_def)

lemma unit_charge_corners:
  "get_electric_field_first [(1, 0, 0)] 1 1 = Inr (1 / (2 * sqrt 2), 1 / (2 * sqrt 2))"
  "get_electric_field_first [(1, 0, 0)] (- 1) 1 = Inr (- 1 / (2 * sqrt 2), 1 / (2 * sqrt 2))"
  "get_electric_field_first [(1, 0, 0)] 1 (- 1) = Inr (1 / (2 * sqrt 2), - 1 / (2 * sqrt 2))"
  "get_electric_field_first [(1, 0, 0)] (- 1) (- 1) =
     Inr (- 1 / (2 * sqrt 2), - 1 / (2 * sqrt 2))"
  by (simp_all add: get_single_first contribution_first_def r2_def coulomb_def)

text \<open>A unit charge at the origin sampled on the 3 by 3 grid over \<open>[-1, 1]\<^sup>2\<close>: row \<open>i\<close>
  is the \<open>y\<close> coordinate, column \<open>j\<close> the \<open>x\<close> coordinate, and the middle node, which is
  the charge's position, holds \<open>(0, 0)\<close>.\<close>

lemma sample_three_by_three:
  "plot_electric_field_field [(1, 0, 0)] (- 1, 1) (- 1, 1) 3 =
     Inr (\<lparr>shape = (3, 3),
            data = [[- 1 / (2 * sqrt 2), 0, 1 / (2 * sqrt 2)],
                    [- 1, 0, 1],
                    [- 1 / (2 * sqrt 2), 0, 1 / (2 * sqrt 2)]]\<rparr>,
          \<lparr>shape = (3, 3),
            data = [[- 1 / (2 * sqrt 2), - 1, - 1 / (2 * sqrt 2)],
                    [0, 0, 0],
                    [1 / (2 * sqrt 2), 1, 1 / (2 * sqrt 2)]]\<rparr>)"
  by (simp add: plot_electric_field_field_def sample_field_def linspace_three meshgrid_def
      np_zeros_def upt_rec numeral_nat getitem_def setitem_def unit_charge_axes
      unit_charge_corners)

subsection \<open>The claims about the grid\<close>

text \<open>
  Claim C6 (grid shape invariant). For a grid density \<open>n \<ge> 2\<close>, every charge list and
  every pair of ranges, the sampling step of either script ends without error. It builds
  per axis the \<open>n\<close> coordinates \<open>x\<close> and \<open>y\<close> that \<^verbatim>\<open>np.linspace\<close> returns for
  \<^verbatim>\<open>x_range\<close> and \<^verbatim>\<open>y_range\<close>: evenly spaced, the \<open>j\<close>-th being
  \<open>min + j * (max - min) / (n - 1)\<close>, the first the lower and the last the upper end of
  the range. It returns two arrays \<open>Ex\<close> and \<open>Ey\<close> of shape \<open>(n, n)\<close>, each of \<open>n\<close> rows of
  length \<open>n\<close>, whose cells \<open>(i, j)\<close> hold the field that the script's
  \<^verbatim>\<open>get_electric_field\<close> returns at the node \<open>(x[j], y[i])\<close>. In particular the ranges
  \<open>(-10, 10)\<close> with density 25 give two arrays of shape \<open>(25, 25)\<close>.
\<close>

theorem grid_shape:
  "(2 \<le> n \<longrightarrow>
      (\<exists>x y E_x E_y.
         linspace (fst x_range) (snd x_range) (int n) = Inr x \<and>
         linspace (fst y_range) (snd y_range) (int n) = Inr y \<and>
         length x = n \<and> length y = n \<and>
         x ! 0 = fst x_range \<and> x ! (n - 1) = snd x_range \<and>
         y ! 0 = fst y_range \<and> y ! (n - 1) = snd y_range \<and>
         (\<forall>j<n. x ! j = fst x_range + real j * ((snd x_range - fst x_range) / real (n - 1))) \<and>
         (\<forall>i<n. y ! i = fst y_range + real i * ((snd y_range - fst y_range) / real (n - 1))) \<and>
         create_plot_field charges x_range y_range (int n) = Inr (E_x, E_y) \<and>
         shape E_x = (n, n) \<and> shape E_y = (n, n) \<and>
         length (data E_x) = n \<and> length (data E_y) = n \<and>
         (\<forall>r\<in>set (data E_x). length r = n) \<and> (\<forall>r\<in>set (data E_y). length r = n) \<and>
         (\<forall>i<n. \<forall>j<n. get_electric_field charges (x ! j) (y ! i) =
            Inr (data E_x ! i ! j, data E_y ! i ! j))) \<and>
      (\<exists>x y E_x E_y.
         linspace (fst x_range) (snd x_range) (int n) = Inr x \<and>
         linspace (fst y_range) (snd y_range) (int n) = Inr y \<and>
         length x = n \<and> length y = n \<and>
         x ! 0 = fst x_range \<and> x ! (n - 1) = snd x_range \<and>
         y ! 0 = fst y_range \<and> y ! (n - 1) = snd y_range \<and>
         (\<forall>j<n. x ! j = fst x_range + real j * ((snd x_range - fst x_range) / real (n - 1))) \<and>
         (\<forall>i<n. y ! i = fst y_range + real i * ((snd y_range - fst y_range) / real (n - 1))) \<and>
         plot_electric_field_field charges x_range y_range (int n) = Inr (E_x, E_y) \<and>
         shape E_x = (n, n) \<and> shape E_y = (n, n) \<and>
         length (data E_x) = n \<and> length (data E_y) = n \<and>
         (\<forall>r\<in>set (data E_x). length r = n) \<and> (\<forall>r\<in>set (data E_y). length r = n) \<and>
         (\<forall>i<n. \<forall>j<n. get_electric_field_first charges (x ! j) (y ! i) =
            Inr (data E_x ! i ! j, data E_y ! i ! j)))) \<and>
   (\<exists>E_x E_y. create_plot_field charges (- 10, 10) (- 10, 10) 25 = Inr (E_x, E_y) \<and>
      shape E_x = (25, 25) \<and> shape E_y = (25, 25)) \<and>
   (\<exists>E_x E_y. plot_electric_field_field charges (- 10, 10) (- 10, 10) 25 = Inr (E_x, E_y) \<and>
      shape E_x = (25, 25) \<and> shape E_y = (25, 25))"
proof -
  have c25: "\<exists>E_x E_y. create_plot_field charges (- 10, 10) (- 10, 10) 25 = Inr (E_x, E_y) \<and>
      shape E_x = (25, 25) \<and> shape E_y = (25, 25)"
    using sample_shape [OF yields_any, of charges "(- 10, 10)" "(- 10, 10)" 25]
    by (auto simp add: create_plot_field_def)
  have p25:
    "\<exists>E_x E_y. plot_electric_field_field charges (- 10, 10) (- 10, 10) 25 = Inr (E_x, E_y) \<and>
      shape E_x = (25, 25) \<and> shape E_y = (25, 25)"
    using sample_shape [OF yields_any_first, of charges "(- 10, 10)" "(- 10, 10)" 25]
    by (auto simp add: plot_electric_field_field_def)
  note second = sample_nodes [where field = get_electric_field and charges = charges and n = n
      and x_range = x_range and y_range = y_range, OF yields_any,
      folded create_plot_field_def]
  note first = sample_nodes [where field = get_electric_field_first and charges = charges
      and n = n and x_range = x_range and y_range = y_range, OF yields_any_first,
      folded plot_electric_field_field_def]
  show ?thesis
    by (intro conjI impI second first c25 p25)
qed

text \<open>The witness samples a unit charge at the origin on the 3 by 3 grid over
  \<open>[-1, 1]\<^sup>2\<close>: the node \<open>(1, 0)\<close> is cell \<open>(1, 2)\<close> and holds \<open>(1, 0)\<close>, the middle node is
  the charge's position and holds \<open>(0, 0)\<close>.\<close>

theorem grid_shape_witness:
  "(2::nat) \<le> 3 \<and> linspace (- 1) 1 3 = Inr [- 1, 0, 1] \<and>
   (\<exists>E_x E_y. create_plot_field [(1, 0, 0)] (- 1, 1) (- 1, 1) 3 = Inr (E_x, E_y) \<and>
      shape E_x = (3, 3) \<and> shape E_y = (3, 3) \<and>
      length (data E_x) = 3 \<and> length (data E_y) = 3 \<and>
      data E_x ! 1 ! 2 = 1 \<and> data E_y ! 1 ! 2 = 0 \<and>
      data E_x ! 1 ! 1 = 0 \<and> data E_y ! 1 ! 1 = 0) \<and>
   plot_electric_field_field [(1, 0, 0)] (- 1, 1) (- 1, 1) 3 =
     Inr (\<lparr>shape = (3, 3),
            data = [[- 1 / (2 * sqrt 2), 0, 1 / (2 * sqrt 2)],
                    [- 1, 0, 1],
                    [- 1 / (2 * sqrt 2), 0, 1 / (2 * sqrt 2)]]\<rparr>,
          \<lparr>shape = (3, 3),
            data = [[- 1 / (2 * sqrt 2), - 1, - 1 / (2 * sqrt 2)],
                    [0, 0, 0],
                    [1 / (2 * sqrt 2), 1, 1 / (2 * sqrt 2)]]\<rparr>)"
proof -
  have dense: "(2::nat) \<le> 3" by simp
  have three: "int 3 = 3" by simp
  from dense grid_shape [of 3 "(- 1, 1)" "(- 1, 1)" "[(1, 0, 0)]"] obtain x y E_x E_y where
    g: "linspace (- 1) 1 3 = Inr x" "linspace (- 1) 1 3 = Inr y"
      "create_plot_field [(1, 0, 0)] (- 1, 1) (- 1, 1) 3 = Inr (E_x, E_y)"
      "shape E_x = (3, 3)" "shape E_y = (3, 3)" "length (data E_x) = 3" "length (data E_y) = 3"
      "\<forall>i<3. \<forall>j<3. get_electric_field [(1, 0, 0)] (x ! j) (y ! i) =
          Inr (data E_x ! i ! j, data E_y ! i ! j)"
    unfolding three fst_conv snd_conv by (elim conjE exE impE) blast+
  from g(1,2) have xy: "x = [- 1, 0, 1]" "y = [- 1, 0, 1]"
    by (simp_all add: linspace_three)
  from g(8) have "get_electric_field [(1, 0, 0)] (x ! 2) (y ! 1) =
      Inr (data E_x ! 1 ! 2, data E_y ! 1 ! 2)"
    "get_electric_field [(1, 0, 0)] (x ! 1) (y ! 1) = Inr (data E_x ! 1 ! 1, data E_y ! 1 ! 1)"
    by simp_all
  then have cells: "data E_x ! 1 ! 2 = 1" "data E_y ! 1 ! 2 = 0"
    "data E_x ! 1 ! 1 = 0" "data E_y ! 1 ! 1 = 0"
    by (simp_all add: xy unit_charge_second)
  from dense linspace_three g(3-7) cells sample_three_by_three show ?thesis by blast
qed

text \<open>
  Claim C7 (zero-charge grid). With no charge the field is \<open>(0, 0)\<close> at every point, and
  for every pair of ranges and every density \<open>n \<ge> 2\<close> the sampling step of either
  script ends without error with \<open>Ex\<close> and \<open>Ey\<close> both the all-zero array of shape
  \<open>(n, n)\<close>.
\<close>

theorem zero_charge_grid:
  "get_electric_field [] x y = Inr (0, 0) \<and>
   get_electric_field_first [] x y = Inr (0, 0) \<and>
   (2 \<le> n \<longrightarrow>
      create_plot_field [] x_range y_range (int n) =
        Inr (\<lparr>shape = (n, n), data = replicate n (replicate n 0)\<rparr>,
             \<lparr>shape = (n, n), data = replicate n (replicate n 0)\<rparr>) \<and>
      plot_electric_field_field [] x_range y_range (int n) =
        Inr (\<lparr>shape = (n, n), data = replicate n (replicate n 0)\<rparr>,
             \<lparr>shape = (n, n), data = replicate n (replicate n 0)\<rparr>))"
  using sample_zero [OF yields_zero, of x_range y_range n]
    sample_zero [OF yields_zero_first, of x_range y_range n]
  by (simp add: create_plot_field_def plot_electric_field_field_def get_electric_field_def
      get_electric_field_first_def)

theorem zero_charge_grid_witness:
  "(2::nat) \<le> 25 \<and>
   create_plot_field [] (- 10, 10) (- 10, 10) 25 =
     Inr (\<lparr>shape = (25, 25), data = replicate 25 (replicate 25 0)\<rparr>,
          \<lparr>shape = (25, 25), data = replicate 25 (replicate 25 0)\<rparr>) \<and>
   plot_electric_field_field [] (- 10, 10) (- 10, 10) 25 =
     Inr (\<lparr>shape = (25, 25), data = replicate 25 (replicate 25 0)\<rparr>,
          \<lparr>shape = (25, 25), data = replicate 25 (replicate 25 0)\<rparr>)"
proof -
  have dense: "(2::nat) \<le> 25" by simp
  have n: "int 25 = 25" by simp
  from dense zero_charge_grid [of 0 0 25 "(- 10, 10)" "(- 10, 10)"]
  show ?thesis unfolding n by blast
qed

end
